theory Spec2Isabelle
  imports Complex_Main
begin

section \<open>JavaScript values\<close>

text \<open>
  A JavaScript string is a sequence of UTF-16 code units. The font ranges of the default
  options test for code units above 0xFF and 0x500, which an 8-bit HOL character cannot
  hold, so a string is a list of code units; \<open>js\<close> turns a HOL literal into one.
\<close>

type_synonym jsstring = "nat list"

definition js :: "string \<Rightarrow> jsstring" where
  "js s = map of_char s"

text \<open>
  A JavaScript number is a finite value, an infinity or NaN. Finite values are modelled by
  the real number they stand for (no negative zero), and the sums, products and quotients of
  the layout by the exact ones.
\<close>

datatype number = Fin real | PosInf | NegInf | NaN

text \<open>
  The numbers of the source are IEEE 754 doubles. \<open>double x\<close> is the double nearest to the
  real \<open>x\<close>: \<open>x\<close> rounded to a multiple of \<open>2 ^ (e - 52)\<close>, a tie going to the even multiple,
  where \<open>e\<close> is the exponent of \<open>x\<close>, the integer with \<open>2 ^ e \<le> \<bar>x\<bar> < 2 ^ (e + 1)\<close>, or \<open>-1022\<close> if
  that is larger. (A magnitude of \<open>2 ^ 1024\<close> or more, an infinity of IEEE 754, is rounded in
  the same way; no position on a page is that large.) \<open>doubleMinus\<close> is the subtraction of
  two doubles, the exact difference rounded.
  \<open>setText\<close> takes the height of a text back off the cursor by two subtractions that are
  meant to cancel; whether they do is a matter of this rounding, so they are modelled by
  \<open>doubleMinus\<close>.
\<close>

fun bitLength :: "nat \<Rightarrow> nat" where
  "bitLength n = (if n = 0 then 0 else Suc (bitLength (n div 2)))"

declare bitLength.simps [simp del]

definition exponent :: "real \<Rightarrow> int" where
  "exponent x =
     (if 1 \<le> \<bar>x\<bar> then int (bitLength (nat \<lfloor>\<bar>x\<bar>\<rfloor>)) - 1
      else - int (bitLength (nat (\<lceil>1 / \<bar>x\<bar>\<rceil> - 1))))"

definition pow2 :: "int \<Rightarrow> real" where
  "pow2 e = (if 0 \<le> e then 2 ^ nat e else 1 / 2 ^ nat (- e))"

definition roundEven :: "real \<Rightarrow> int" where
  "roundEven r =
     (let f = \<lfloor>r\<rfloor>; d = r - of_int f
      in if d < 1 / 2 then f else if 1 / 2 < d then f + 1 else if even f then f else f + 1)"

definition double :: "real \<Rightarrow> real" where
  "double x =
     (if x = 0 then 0
      else (let u = pow2 (max (exponent x) (- 1022) - 52) in of_int (roundEven (x / u)) * u))"

definition doubleMinus :: "real \<Rightarrow> real \<Rightarrow> real" where
  "doubleMinus a b = double (a - b)"

datatype jsvalue = Str jsstring | Num number

text \<open>
  The source has no \<open>throw\<close> statement. The one exception its own code could raise is the
  TypeError of reading \<open>.name\<close> of a font table entry that does not exist.
\<close>

datatype error = TypeError

text \<open>\<open>a / b\<close> for a finite \<open>a\<close> and an integer \<open>b\<close>: dividing by zero gives an infinity or NaN.\<close>

definition jsDivide :: "real \<Rightarrow> int \<Rightarrow> number" where
  "jsDivide a b =
     (if b \<noteq> 0 then Fin (a / real_of_int b)
      else if a > 0 then PosInf
      else if a < 0 then NegInf
      else NaN)"

fun numAdd :: "number \<Rightarrow> number \<Rightarrow> number" where
  "numAdd (Fin a) (Fin b) = Fin (a + b)"
| "numAdd NaN _ = NaN"
| "numAdd _ NaN = NaN"
| "numAdd PosInf NegInf = NaN"
| "numAdd NegInf PosInf = NaN"
| "numAdd PosInf _ = PosInf"
| "numAdd _ PosInf = PosInf"
| "numAdd NegInf _ = NegInf"
| "numAdd _ NegInf = NegInf"

section \<open>Options\<close>

text \<open>
  The options are the ones the constructor stores: the caller's options merged onto the
  defaults. The defaults give the normal and the fallback font a range, so both are present.
  A range is a pattern that matches single characters (the defaults are negated character
  classes); it is modelled by the predicate telling which code units it matches.
\<close>

record document_options =
  marginLeft :: real
  marginRight :: real
  document_marginTop :: real

record normal_options =
  normal_name :: jsstring
  normal_range :: "nat \<Rightarrow> bool"
  normal_path :: "jsstring option"

record bold_options =
  bold_name :: jsstring
  bold_path :: "jsstring option"

record fallback_options =
  fallback_name :: jsstring
  fallback_path :: jsstring
  enabled :: bool
  fallback_range :: "nat \<Rightarrow> bool"
  transliterate_flag :: bool

record fonts_options =
  normal :: normal_options
  bold :: bold_options
  fallback :: fallback_options

record header_image =
  image_path :: jsstring
  image_width :: real
  image_height :: real

record header_options =
  backgroundColor :: jsstring
  height :: real
  image :: "header_image option"
  textPosition :: real
  regularColor :: "jsstring option"
  header_secondaryColor :: "jsstring option"

record column_options =
  position :: real
  column_maxWidth :: real

record table_options =
  quantity :: column_options
  total :: column_options

record text_style =
  primaryColor :: jsstring
  secondaryColor :: jsstring
  headingSize :: real
  regularSize :: real

record style_options =
  document_style :: document_options
  fonts :: fonts_options
  header_style :: header_options
  table_style :: table_options
  text_style :: text_style

record header_line =
  header_label :: jsstring
  header_value :: jsvalue

datatype detail_value = One jsstring | Many "jsstring list"

record detail_line =
  detail_label :: jsstring
  detail_value :: detail_value

text \<open>A cell's \<open>price\<close> is compared with \<open>=== true\<close>: an absent flag is \<open>False\<close>.\<close>

record cell =
  cell_value :: jsvalue
  price :: bool

record total_line =
  total_label :: jsstring
  total_value :: jsvalue
  total_price :: bool

record legal_line =
  legal_value :: jsstring
  weight :: "jsstring option"
  legal_color :: "jsstring option"

record details =
  details_header :: "cell list"
  parts :: "cell list list"
  details_total :: "total_line list"

record invoice =
  invoice_name :: jsstring
  invoice_header :: "header_line list"
  customer :: "detail_line list"
  seller :: "detail_line list"
  currency :: "jsstring option"
  invoice_details :: details
  legal :: "legal_line list"

record options =
  style :: style_options
  data_invoice :: invoice

section \<open>The backend document\<close>

text \<open>
  The document records every call it receives. A text call is logged with the vertical
  position the document reports after it.
\<close>

record text_call =
  tc_text :: jsvalue
  tc_x :: number
  tc_y :: real
  tc_align :: jsstring
  tc_width :: "number option"

datatype op =
    RegisterFont jsstring jsstring
  | FillColor jsstring
  | Font jsstring
  | FontSize real
  | Text text_call real
  | Rect real real real real
  | Fill jsstring
  | Image jsstring real real real real
  | StrokeColor jsstring
  | LineWidth real
  | MoveTo real real
  | LineTo real real
  | Stroke

record document =
  doc_y :: real
  calls :: "op list"

text \<open>
  What the core does not decide: how far a text or an image moves the document's \<open>y\<close>,
  the page width, the \<open>y\<close> of a new document, the transliteration library and the rendering of a finite number as a string.
\<close>

record environment =
  textY :: "document \<Rightarrow> text_call \<Rightarrow> real"
  imageY :: "document \<Rightarrow> jsstring \<Rightarrow> real \<Rightarrow> real \<Rightarrow> real \<Rightarrow> real \<Rightarrow> real"
  pageWidth :: real
  initialY :: real
  transliterate :: "jsvalue \<Rightarrow> jsvalue"
  finiteToString :: "real \<Rightarrow> jsstring"

definition call :: "op \<Rightarrow> document \<Rightarrow> document" where
  "call c d = d\<lparr>calls := calls d @ [c]\<rparr>"

definition drawText :: "environment \<Rightarrow> text_call \<Rightarrow> document \<Rightarrow> document" where
  "drawText env c d = (let y' = textY env d c in d\<lparr>doc_y := y', calls := calls d @ [Text c y']\<rparr>)"

definition imageCall :: "environment \<Rightarrow> jsstring \<Rightarrow> real \<Rightarrow> real \<Rightarrow> real \<Rightarrow> real \<Rightarrow> document \<Rightarrow> document" where
  "imageCall env p x y w h d =
     d\<lparr>doc_y := imageY env d p x y w h, calls := calls d @ [Image p x y w h]\<rparr>"

fun textCalls :: "op list \<Rightarrow> (text_call \<times> real) list" where
  "textCalls [] = []"
| "textCalls (Text c y # cs) = (c, y) # textCalls cs"
| "textCalls (_ # cs) = textCalls cs"

fun registrations :: "op list \<Rightarrow> (jsstring \<times> jsstring) list" where
  "registrations [] = []"
| "registrations (RegisterFont n p # cs) = (n, p) # registrations cs"
| "registrations (_ # cs) = registrations cs"

section \<open>Storage\<close>

text \<open>
  \<open>storage.document\<close> starts as null and is created by the first \<open>getDocument\<close>, which is
  the first statement of \<open>generateBuffer\<close>; the model starts from the created document.
  Only the division of \<open>generateTableRow\<close> can leave the finite numbers, and its result
  flows into \<open>cursor.x\<close> and the width of a text; \<open>cursor.y\<close> stays finite.
\<close>

record storage =
  cursor_x :: number
  cursor_y :: real
  customer_height :: real
  seller_height :: real
  loaded :: bool
  document :: document

definition onDocument :: "(document \<Rightarrow> document) \<Rightarrow> storage \<Rightarrow> storage" where
  "onDocument f st = st\<lparr>document := f (document st)\<rparr>"

definition setCursorX :: "number \<Rightarrow> storage \<Rightarrow> storage" where
  "setCursorX v st = st\<lparr>cursor_x := v\<rparr>"

definition setCursorY :: "real \<Rightarrow> storage \<Rightarrow> storage" where
  "setCursorY v st = st\<lparr>cursor_y := v\<rparr>"

fun forEach :: "('a \<Rightarrow> 's \<Rightarrow> error + 's) \<Rightarrow> 'a list \<Rightarrow> 's \<Rightarrow> error + 's" where
  "forEach f [] s = Inr s"
| "forEach f (x # xs) s = (case f x s of Inl e \<Rightarrow> Inl e | Inr s' \<Rightarrow> forEach f xs s')"

fun forEachIndex :: "(nat \<Rightarrow> 'a \<Rightarrow> 's \<Rightarrow> error + 's) \<Rightarrow> nat \<Rightarrow> 'a list \<Rightarrow> 's \<Rightarrow> error + 's" where
  "forEachIndex f i [] s = Inr s"
| "forEachIndex f i (x # xs) s =
     (case f i x s of Inl e \<Rightarrow> Inl e | Inr s' \<Rightarrow> forEachIndex f (Suc i) xs s')"

section \<open>Fonts\<close>

definition loadCustomFonts :: "options \<Rightarrow> storage \<Rightarrow> storage" where
  "loadCustomFonts opts st =
     (let fs = fonts (style opts);
          st1 = (case normal_path (normal fs) of
                   None \<Rightarrow> st
                 | Some p \<Rightarrow> if p \<noteq> [] then onDocument (call (RegisterFont (normal_name (normal fs)) p)) st else st)
      in case bold_path (bold fs) of
           None \<Rightarrow> st1
         | Some p \<Rightarrow> if p \<noteq> [] then onDocument (call (RegisterFont (bold_name (bold fs)) p)) st1 else st1)"

text \<open>\<open>fonts[key].name\<close>: the table has the keys normal, bold and fallback; reading the name of
  any other entry raises.\<close>

definition fontsName :: "fonts_options \<Rightarrow> jsstring option \<Rightarrow> error + jsstring" where
  "fontsName fs key =
     (if key = Some (js ''normal'') then Inr (normal_name (normal fs))
      else if key = Some (js ''bold'') then Inr (bold_name (bold fs))
      else if key = Some (js ''fallback'') then Inr (fallback_name (fallback fs))
      else Inl TypeError)"

fun numberToString :: "environment \<Rightarrow> number \<Rightarrow> jsstring" where
  "numberToString env (Fin x) = finiteToString env x"
| "numberToString env PosInf = js ''Infinity''"
| "numberToString env NegInf = js ''-Infinity''"
| "numberToString env NaN = js ''NaN''"

text \<open>\<open>value.toString()\<close>.\<close>

fun toString :: "environment \<Rightarrow> jsvalue \<Rightarrow> jsstring" where
  "toString env (Str s) = s"
| "toString env (Num n) = numberToString env n"

text \<open>\<open>value || ""\<close> as \<open>RegExp.test\<close> reads it: an empty string, zero and NaN are falsy.\<close>

fun orEmpty :: "environment \<Rightarrow> jsvalue \<Rightarrow> jsstring" where
  "orEmpty env (Str s) = (if s = [] then [] else s)"
| "orEmpty env (Num n) = (if n = Fin 0 \<or> n = NaN then [] else numberToString env n)"

definition test :: "(nat \<Rightarrow> bool) \<Rightarrow> jsstring \<Rightarrow> bool" where
  "test r s = list_ex r s"

definition getFontOrFallback ::
  "environment \<Rightarrow> options \<Rightarrow> jsstring option \<Rightarrow> jsvalue \<Rightarrow> storage \<Rightarrow> error + (jsstring \<times> storage)" where
  "getFontOrFallback env opts type0 v st =
     (let fs = fonts (style opts);
          normalRange = normal_range (normal fs);
          fallbackRange = fallback_range (fallback fs);
          type = (if type0 \<noteq> Some (js ''normal'') \<and> type0 \<noteq> Some (js ''bold'')
                  then Some (js ''normal'') else type0)
      in if \<not> enabled (fallback fs) then map_sum id (\<lambda>n. (n, st)) (fontsName fs type)
         else if \<not> test normalRange (orEmpty env v) then map_sum id (\<lambda>n. (n, st)) (fontsName fs type)
         else if test fallbackRange (orEmpty env v) then map_sum id (\<lambda>n. (n, st)) (fontsName fs type)
         else Inr (fallback_name (fallback fs),
                   if \<not> loaded st
                   then (onDocument (call (RegisterFont (fallback_name (fallback fs)) (fallback_path (fallback fs)))) st)
                          \<lparr>loaded := True\<rparr>
                   else st))"

definition valueOrTransliterate :: "environment \<Rightarrow> options \<Rightarrow> jsvalue \<Rightarrow> jsvalue" where
  "valueOrTransliterate env opts v =
     (let fallbackRange = fallback_range (fallback (fonts (style opts)))
      in if \<not> enabled (fallback (fonts (style opts))) then v
         else if \<not> test fallbackRange (orEmpty env v) then v
         else transliterate env v)"

section \<open>Prices\<close>

fun digits :: "nat \<Rightarrow> jsstring" where
  "digits n = (if n < 10 then [48 + n] else digits (n div 10) @ [48 + n mod 10])"

declare digits.simps [simp del]

text \<open>
  \<open>Number.prototype.toFixed(2)\<close> as ECMAScript defines it. A value that is not finite, or
  is at least \<open>10^21\<close> in size, is rendered as \<open>toString\<close> renders it. Otherwise \<open>n\<close> is the
  integer nearest to \<open>100 * x\<close> (the larger one of two), its digits are padded with zeros to
  three places at least, and the point goes before the last two.
\<close>

definition fixed2 :: "real \<Rightarrow> jsstring" where
  "fixed2 x =
     (let n = nat \<lfloor>x * 100 + 1 / 2\<rfloor>;
          m = (if n = 0 then js ''0'' else digits n);
          k = length m;
          m = (if k \<le> 2 then replicate (3 - k) 48 @ m else m);
          k = (if k \<le> 2 then 3 else k)
      in take (k - 2) m @ js ''.'' @ drop (k - 2) m)"

fun toFixed2 :: "environment \<Rightarrow> number \<Rightarrow> jsstring" where
  "toFixed2 env (Fin x) =
     (let s = (if x < 0 then js ''-'' else []);
          x = (if x < 0 then - x else x)
      in if x \<ge> 10 ^ 21 then s @ finiteToString env x else s @ fixed2 x)"
| "toFixed2 env n = numberToString env n"

definition prettyPrice :: "environment \<Rightarrow> options \<Rightarrow> jsvalue \<Rightarrow> jsstring" where
  "prettyPrice env opts v =
     (let v = (case v of Num n \<Rightarrow> toFixed2 env n | Str s \<Rightarrow> s)
      in case currency (data_invoice opts) of
           None \<Rightarrow> v
         | Some c \<Rightarrow> if c \<noteq> [] then v @ js '' '' @ c else v)"

section \<open>Text\<close>

text \<open>The options of \<open>setText\<close>; an absent one is \<open>None\<close> and takes its default.\<close>

record text_options =
  fontWeight :: "jsstring option"
  colorCode :: "jsstring option"
  fontSize :: "jsstring option"
  align :: "jsstring option"
  color :: "jsstring option"
  marginTop :: "real option"
  maxWidth :: "number option"
  skipDown :: "bool option"

definition noOptions :: text_options where
  "noOptions = \<lparr>fontWeight = None, colorCode = None, fontSize = None, align = None,
     color = None, marginTop = None, maxWidth = None, skipDown = None\<rparr>"

definition orDefault :: "'a option \<Rightarrow> 'a \<Rightarrow> 'a" where
  "orDefault v d = (case v of None \<Rightarrow> d | Some x \<Rightarrow> x)"

definition setText :: "environment \<Rightarrow> options \<Rightarrow> jsvalue \<Rightarrow> text_options \<Rightarrow> storage \<Rightarrow> error + storage" where
  "setText env opts tx options st =
     (let fontWeight' = orDefault (fontWeight options) (js ''normal'');
          colorCode' = orDefault (colorCode options) (js ''primary'');
          fontSize' = orDefault (fontSize options) (js ''regular'');
          align' = orDefault (align options) (js ''left'');
          color' = orDefault (color options) [];
          marginTop' = orDefault (marginTop options) 0;
          st = st\<lparr>cursor_y := cursor_y st + marginTop'\<rparr>;
          st = (if color' = []
                then (if colorCode' = js ''primary''
                      then onDocument (call (FillColor (primaryColor (text_style (style opts))))) st
                      else onDocument (call (FillColor (secondaryColor (text_style (style opts))))) st)
                else st);
          fontSizeValue = (if fontSize' = js ''regular''
                           then regularSize (text_style (style opts))
                           else headingSize (text_style (style opts)))
      in case getFontOrFallback env opts (Some fontWeight') tx st of
           Inl e \<Rightarrow> Inl e
         | Inr (fontName, st) \<Rightarrow>
             (let st = onDocument (call (Font fontName)) st;
                  st = onDocument (call (FillColor color')) st;
                  st = onDocument (call (FontSize fontSizeValue)) st;
                  st = onDocument (drawText env
                         \<lparr>tc_text = valueOrTransliterate env opts tx, tc_x = cursor_x st,
                          tc_y = cursor_y st, tc_align = align', tc_width = maxWidth options\<rparr>) st;
                  diff = doubleMinus (doc_y (document st)) (cursor_y st);
                  st = st\<lparr>cursor_y := doc_y (document st)\<rparr>
              in Inr (if skipDown options = Some True
                      then (if diff > 0
                            then st\<lparr>cursor_y := doubleMinus (cursor_y st) diff\<rparr>
                            else st\<lparr>cursor_y := doubleMinus (cursor_y st) 11.5\<rparr>)
                      else st)))"

section \<open>Header, details and legal text\<close>

definition generateHeader :: "environment \<Rightarrow> options \<Rightarrow> storage \<Rightarrow> error + storage" where
  "generateHeader env opts st =
     (let h = header_style (style opts);
          st = onDocument (call (Rect 0 0 (pageWidth env) (height h))) st;
          st = onDocument (call (Fill (backgroundColor h))) st;
          st = (case image h of
                  None \<Rightarrow> st
                | Some img \<Rightarrow>
                    if image_path img \<noteq> []
                    then onDocument (imageCall env (image_path img)
                           (marginLeft (document_style (style opts)))
                           (document_marginTop (document_style (style opts)))
                           (image_width img) (image_height img)) st
                    else st);
          fontMargin = 4;
          st = setCursorX (Fin (textPosition h)) st;
          st = setCursorY (document_marginTop (document_style (style opts))) st
      in case setText env opts (Str (invoice_name (data_invoice opts)))
                (noOptions\<lparr>fontSize := Some (js ''heading''), fontWeight := Some (js ''bold''),
                   color := regularColor h\<rparr>) st of
           Inl e \<Rightarrow> Inl e
         | Inr st \<Rightarrow>
             forEach (\<lambda>line st.
                 case setText env opts (Str (header_label line @ js '':''))
                        (noOptions\<lparr>fontWeight := Some (js ''bold''), color := regularColor h,
                           marginTop := Some fontMargin\<rparr>) st of
                   Inl e \<Rightarrow> Inl e
                 | Inr st \<Rightarrow>
                     forEach (\<lambda>v st. setText env opts v
                         (noOptions\<lparr>colorCode := Some (js ''secondary''),
                            color := header_secondaryColor h, marginTop := Some fontMargin\<rparr>) st)
                       [header_value line] st)
               (invoice_header (data_invoice opts)) st)"

datatype details_type = Customer | Seller

definition generateDetails :: "environment \<Rightarrow> options \<Rightarrow> details_type \<Rightarrow> storage \<Rightarrow> error + storage" where
  "generateDetails env opts type st =
     (let maxWidth' = Fin 250;
          fontMargin = 4;
          st = setCursorY (height (header_style (style opts)) + 18) st;
          st = (if type = Customer
                then setCursorX (Fin (marginLeft (document_style (style opts)))) st
                else setCursorX (Fin (textPosition (header_style (style opts)))) st)
      in case forEach (\<lambda>line st.
                 case setText env opts (Str (detail_label line @ js '':''))
                        (noOptions\<lparr>colorCode := Some (js ''primary''), fontWeight := Some (js ''bold''),
                           marginTop := Some 8, maxWidth := Some maxWidth'\<rparr>) st of
                   Inl e \<Rightarrow> Inl e
                 | Inr st \<Rightarrow>
                     forEach (\<lambda>v st. setText env opts (Str v)
                         (noOptions\<lparr>colorCode := Some (js ''secondary''),
                            marginTop := Some fontMargin, maxWidth := Some maxWidth'\<rparr>) st)
                       (case detail_value line of Many vs \<Rightarrow> vs | One v \<Rightarrow> [v]) st)
               (case type of Customer \<Rightarrow> customer (data_invoice opts)
                           | Seller \<Rightarrow> seller (data_invoice opts)) st of
           Inl e \<Rightarrow> Inl e
         | Inr st \<Rightarrow>
             Inr (case type of Customer \<Rightarrow> st\<lparr>customer_height := cursor_y st\<rparr>
                             | Seller \<Rightarrow> st\<lparr>seller_height := cursor_y st\<rparr>))"

definition generateLegal :: "environment \<Rightarrow> options \<Rightarrow> storage \<Rightarrow> error + storage" where
  "generateLegal env opts st =
     (let st = st\<lparr>cursor_y := cursor_y st + 60\<rparr>
      in forEach (\<lambda>l st.
             (let st = setCursorX (Fin (marginLeft (document_style (style opts)) * 2)) st
              in setText env opts (Str (legal_value l))
                   (noOptions\<lparr>fontWeight := weight l,
                      colorCode := Some (case legal_color l of
                                           None \<Rightarrow> js ''primary''
                                         | Some c \<Rightarrow> if c \<noteq> [] then c else js ''primary''),
                      align := Some (js ''center''), marginTop := Some 10\<rparr>) st))
           (legal (data_invoice opts)) st)"

section \<open>The table\<close>

definition generateLine :: "environment \<Rightarrow> options \<Rightarrow> storage \<Rightarrow> storage" where
  "generateLine env opts st =
     (let st = st\<lparr>cursor_y := cursor_y st + (regularSize (text_style (style opts)) + 2)\<rparr>;
          st = onDocument (call (StrokeColor (js ''#F0F0F0''))) st;
          st = onDocument (call (LineWidth 1)) st;
          st = onDocument (call (MoveTo (marginRight (document_style (style opts))) (cursor_y st))) st;
          st = onDocument (call (LineTo
                 (pageWidth env - marginRight (document_style (style opts))) (cursor_y st))) st
      in onDocument (call Stroke) st)"

datatype row_type = Header | Row

text \<open>
  The callback of \<open>columns.forEach\<close> in \<open>generateTableRow\<close>. The variables of the function
  that it updates are passed along: \<open>start\<close>, \<open>maxWidth\<close> and \<open>maxY\<close>, with the storage.
  \<open>n\<close> is \<open>columns.length\<close>.
\<close>

definition tableColumn ::
  "environment \<Rightarrow> options \<Rightarrow> jsstring \<Rightarrow> jsstring \<Rightarrow> int \<Rightarrow> nat \<Rightarrow> cell
     \<Rightarrow> number \<times> number \<times> real \<times> storage \<Rightarrow> error + number \<times> number \<times> real \<times> storage" where
  "tableColumn env opts fontWeight' colorCode' n index column acc =
     (case acc of (start, maxWidth', maxY, st) \<Rightarrow>
        (let (maxWidth', st) =
               (if int index < n - 2 then (maxWidth', setCursorX start st)
                else if int index = n - 2
                then (Fin (column_maxWidth (quantity (table_style (style opts)))),
                      setCursorX (Fin (position (quantity (table_style (style opts))))) st)
                else (Fin (column_maxWidth (total (table_style (style opts)))),
                      setCursorX (Fin (position (total (table_style (style opts))))) st));
             v = cell_value column;
             v = (if price column then Str (prettyPrice env opts v) else v)
         in case setText env opts (Str (toString env v))
                   (noOptions\<lparr>colorCode := Some colorCode', maxWidth := Some maxWidth',
                      fontWeight := Some fontWeight', skipDown := Some True\<rparr>) st of
              Inl e \<Rightarrow> Inl e
            | Inr st \<Rightarrow>
                (let start = numAdd start (numAdd maxWidth' (Fin 10));
                     maxY = (if doc_y (document st) \<ge> maxY then doc_y (document st) else maxY)
                 in Inr (start, maxWidth', maxY, st))))"

text \<open>\<open>generateTableRow\<close> up to \<open>this.setCursor("y", maxY)\<close>, the statement after the loop.\<close>

definition tableRowCells :: "environment \<Rightarrow> options \<Rightarrow> row_type \<Rightarrow> cell list \<Rightarrow> storage \<Rightarrow> error + storage" where
  "tableRowCells env opts type columns st =
     (let st = st\<lparr>cursor_y := doc_y (document st)\<rparr>;
          st = st\<lparr>cursor_y := cursor_y st + 17\<rparr>;
          (fontWeight', colorCode') =
             (if type = Header then (js ''bold'', js ''primary'') else (js ''normal'', js ''secondary''));
          start = marginLeft (document_style (style opts));
          maxY = cursor_y st;
          maxWidth' = jsDivide
             (textPosition (header_style (style opts)) - start - marginRight (document_style (style opts)))
             (int (length columns) - 2)
      in case forEachIndex (tableColumn env opts fontWeight' colorCode' (int (length columns)))
                0 columns (Fin start, maxWidth', maxY, st) of
           Inl e \<Rightarrow> Inl e
         | Inr (start, maxWidth', maxY, st) \<Rightarrow> Inr (setCursorY maxY st))"

definition generateTableRow :: "environment \<Rightarrow> options \<Rightarrow> row_type \<Rightarrow> cell list \<Rightarrow> storage \<Rightarrow> error + storage" where
  "generateTableRow env opts type columns st =
     (case tableRowCells env opts type columns st of
        Inl e \<Rightarrow> Inl e
      | Inr st \<Rightarrow> Inr (if type = Header then generateLine env opts st else st))"

text \<open>The first two statements of \<open>generateParts\<close>: \<open>startY\<close> and \<open>this.setCursor("y", startY)\<close>.\<close>

definition partsStart :: "storage \<Rightarrow> storage" where
  "partsStart st = (let startY = max (customer_height st) (seller_height st) in setCursorY startY st)"

definition generateParts :: "environment \<Rightarrow> options \<Rightarrow> storage \<Rightarrow> error + storage" where
  "generateParts env opts st =
     (let st = partsStart st
      in case setText env opts (Str (js [CHR 0x0A])) noOptions st of
           Inl e \<Rightarrow> Inl e
         | Inr st \<Rightarrow>
         (case generateTableRow env opts Header (details_header (invoice_details (data_invoice opts))) st of
           Inl e \<Rightarrow> Inl e
         | Inr st \<Rightarrow>
         (case forEach (generateTableRow env opts Row) (parts (invoice_details (data_invoice opts))) st of
           Inl e \<Rightarrow> Inl e
         | Inr st \<Rightarrow>
             (let st = st\<lparr>cursor_y := cursor_y st + 50\<rparr>
              in forEach (\<lambda>t st.
                   (let v = total_value t;
                        st = setCursorX (Fin (position (quantity (table_style (style opts))))) st
                    in case setText env opts (Str (total_label t))
                              (noOptions\<lparr>colorCode := Some (js ''primary''),
                                 fontWeight := Some (js ''bold''), marginTop := Some 12,
                                 maxWidth := Some (Fin (column_maxWidth (quantity (table_style (style opts))))),
                                 skipDown := Some True\<rparr>) st of
                         Inl e \<Rightarrow> Inl e
                       | Inr st \<Rightarrow>
                           (let st = setCursorX (Fin (position (total (table_style (style opts))))) st;
                                v = (if total_price t then Str (prettyPrice env opts (total_value t)) else v)
                            in setText env opts (Str (toString env v))
                                 (noOptions\<lparr>colorCode := Some (js ''secondary''),
                                    maxWidth := Some (Fin (column_maxWidth (total (table_style (style opts)))))\<rparr>)
                                 st)))
                   (details_total (invoice_details (data_invoice opts))) st))))"

section \<open>The document\<close>

definition newStorage :: "environment \<Rightarrow> storage" where
  "newStorage env = \<lparr>cursor_x = Fin 0, cursor_y = 0, customer_height = 0, seller_height = 0,
     loaded = False, document = \<lparr>doc_y = initialY env, calls = []\<rparr>\<rparr>"

definition generateBuffer :: "environment \<Rightarrow> options \<Rightarrow> storage \<Rightarrow> error + storage" where
  "generateBuffer env opts st =
     (let st = loadCustomFonts opts st
      in case generateHeader env opts st of Inl e \<Rightarrow> Inl e | Inr st \<Rightarrow>
        (case generateDetails env opts Customer st of Inl e \<Rightarrow> Inl e | Inr st \<Rightarrow>
        (case generateDetails env opts Seller st of Inl e \<Rightarrow> Inl e | Inr st \<Rightarrow>
        (case generateParts env opts st of Inl e \<Rightarrow> Inl e | Inr st \<Rightarrow>
           generateLegal env opts st))))"

text \<open>The default options of the constructor; \<open>p\<close> is the path of the bundled fallback font.\<close>

definition defaultOptions :: "jsstring \<Rightarrow> options" where
  "defaultOptions p =
     \<lparr>style =
        \<lparr>document_style = \<lparr>marginLeft = 30, marginRight = 30, document_marginTop = 30\<rparr>,
         fonts =
           \<lparr>normal = \<lparr>normal_name = js ''Helvetica'', normal_range = (\<lambda>c. \<not> c \<le> 0xFF),
                       normal_path = None\<rparr>,
            bold = \<lparr>bold_name = js ''Helvetica-Bold'', bold_path = None\<rparr>,
            fallback = \<lparr>fallback_name = js ''Noto Sans'', fallback_path = p, enabled = True,
                         fallback_range = (\<lambda>c. \<not> c \<le> 0x500), transliterate_flag = True\<rparr>\<rparr>,
         header_style = \<lparr>backgroundColor = js ''#F8F8FA'', height = 150, image = None,
                          textPosition = 330, regularColor = None, header_secondaryColor = None\<rparr>,
         table_style = \<lparr>quantity = \<lparr>position = 330, column_maxWidth = 140\<rparr>,
                         total = \<lparr>position = 490, column_maxWidth = 80\<rparr>\<rparr>,
         text_style = \<lparr>primaryColor = js ''#000100'', secondaryColor = js ''#8F8F8F'',
                        headingSize = 15, regularSize = 10\<rparr>\<rparr>,
      data_invoice =
        \<lparr>invoice_name = js ''Invoice for Acme'',
         invoice_header = [\<lparr>header_label = js ''Invoice Number'', header_value = Num (Fin 1)\<rparr>],
         customer = [\<lparr>detail_label = js ''Bill To'', detail_value = Many []\<rparr>],
         seller = [\<lparr>detail_label = js ''Bill From'', detail_value = Many []\<rparr>],
         currency = None,
         invoice_details =
           \<lparr>details_header = [\<lparr>cell_value = Str (js ''Description''), price = False\<rparr>,
                               \<lparr>cell_value = Str (js ''Quantity''), price = False\<rparr>,
                               \<lparr>cell_value = Str (js ''Subtotal''), price = False\<rparr>],
            parts = [],
            details_total = [\<lparr>total_label = js ''Total'', total_value = Num (Fin 0),
                               total_price = False\<rparr>]\<rparr>,
         legal = []\<rparr>\<rparr>"

section \<open>Notions for the properties\<close>

text \<open>The name configured for a weight, after the guard of \<open>getFontOrFallback\<close>.\<close>

definition weightName :: "options \<Rightarrow> jsstring option \<Rightarrow> jsstring" where
  "weightName opts t = (if t = Some (js ''bold'') then bold_name (bold (fonts (style opts)))
                        else normal_name (normal (fonts (style opts))))"

text \<open>The case in which \<open>getFontOrFallback\<close> reaches its last statements.\<close>

definition usesFallback :: "environment \<Rightarrow> options \<Rightarrow> jsvalue \<Rightarrow> bool" where
  "usesFallback env opts v \<longleftrightarrow>
     enabled (fallback (fonts (style opts))) \<and>
     list_ex (normal_range (normal (fonts (style opts)))) (orEmpty env v) \<and>
     \<not> list_ex (fallback_range (fallback (fonts (style opts)))) (orEmpty env v)"

text \<open>The registration of the fallback font, with the flag set.\<close>

definition registerFallback :: "options \<Rightarrow> storage \<Rightarrow> storage" where
  "registerFallback opts st =
     (onDocument (call (RegisterFont (fallback_name (fallback (fonts (style opts))))
        (fallback_path (fallback (fonts (style opts)))))) st)\<lparr>loaded := True\<rparr>"

text \<open>The text call that \<open>setText\<close> issues from a storage.\<close>

definition drawn :: "environment \<Rightarrow> options \<Rightarrow> jsvalue \<Rightarrow> text_options \<Rightarrow> storage \<Rightarrow> text_call" where
  "drawn env opts tx options st =
     \<lparr>tc_text = valueOrTransliterate env opts tx, tc_x = cursor_x st,
      tc_y = cursor_y st + orDefault (marginTop options) 0,
      tc_align = orDefault (align options) (js ''left''), tc_width = maxWidth options\<rparr>"

text \<open>The \<open>x\<close> and the width that the callback of \<open>generateTableRow\<close> gives to the column \<open>i\<close> of \<open>n\<close>,
  \<open>start\<close> and \<open>w\<close> being the values of \<open>start\<close> and \<open>maxWidth\<close> before it.\<close>

definition columnX :: "options \<Rightarrow> int \<Rightarrow> nat \<Rightarrow> number \<Rightarrow> number" where
  "columnX opts n i start =
     (if int i < n - 2 then start
      else if int i = n - 2 then Fin (position (quantity (table_style (style opts))))
      else Fin (position (total (table_style (style opts)))))"

definition columnWidth :: "options \<Rightarrow> int \<Rightarrow> nat \<Rightarrow> number \<Rightarrow> number" where
  "columnWidth opts n i w =
     (if int i < n - 2 then w
      else if int i = n - 2 then Fin (column_maxWidth (quantity (table_style (style opts))))
      else Fin (column_maxWidth (total (table_style (style opts)))))"

text \<open>The text calls, each with the \<open>y\<close> reported after it, that the document received between two
  storages.\<close>

definition newTexts :: "storage \<Rightarrow> storage \<Rightarrow> (text_call \<times> real) list" where
  "newTexts st st' = drop (length (textCalls (calls (document st)))) (textCalls (calls (document st')))"

text \<open>\<open>start += maxWidth + 10\<close>.\<close>

definition nextStart :: "number \<Rightarrow> number \<Rightarrow> number" where
  "nextStart w s = numAdd s (numAdd w (Fin 10))"

text \<open>The weight and the colour of a row, its storage after the first two statements of
  \<open>generateTableRow\<close>, and the initial \<open>maxWidth\<close> of a row of \<open>n\<close> columns.\<close>

definition rowWeight :: "row_type \<Rightarrow> jsstring" where
  "rowWeight type = (if type = Header then js ''bold'' else js ''normal'')"

definition rowColor :: "row_type \<Rightarrow> jsstring" where
  "rowColor type = (if type = Header then js ''primary'' else js ''secondary'')"

definition rowStart :: "storage \<Rightarrow> storage" where
  "rowStart st = st\<lparr>cursor_y := doc_y (document st) + 17\<rparr>"

definition flexWidth :: "options \<Rightarrow> nat \<Rightarrow> number" where
  "flexWidth opts n = jsDivide
     (textPosition (header_style (style opts)) - marginLeft (document_style (style opts))
        - marginRight (document_style (style opts))) (int n - 2)"

text \<open>A change of the storage that draws no text, registers no font and keeps the flag.\<close>

definition silent :: "storage \<Rightarrow> storage \<Rightarrow> bool" where
  "silent st st' \<longleftrightarrow>
     loaded st' = loaded st \<and>
     registrations (calls (document st')) = registrations (calls (document st)) \<and>
     textCalls (calls (document st')) = textCalls (calls (document st))"

text \<open>Storages reached by drawing texts and by changes that draw none.\<close>

inductive steps :: "environment \<Rightarrow> options \<Rightarrow> storage \<Rightarrow> storage \<Rightarrow> bool"
  for env :: environment and opts :: options where
    steps_refl: "steps env opts st st"
  | steps_silent: "steps env opts st st1 \<Longrightarrow> silent st1 st2 \<Longrightarrow> steps env opts st st2"
  | steps_text: "steps env opts st st1 \<Longrightarrow> setText env opts tx options st1 = Inr st2 \<Longrightarrow> steps env opts st st2"

text \<open>The registrations are \<open>base\<close>, followed by the fallback's exactly when the flag is set.\<close>

definition fontInv :: "options \<Rightarrow> (jsstring \<times> jsstring) list \<Rightarrow> storage \<Rightarrow> bool" where
  "fontInv opts base st \<longleftrightarrow>
     registrations (calls (document st)) =
       base @ (if loaded st
               then [(fallback_name (fallback (fonts (style opts))), fallback_path (fallback (fonts (style opts))))]
               else [])"

text \<open>The cursor's \<open>y\<close> after a text drawn at \<open>y0\<close> with \<open>skipDown\<close>, the document reporting \<open>yNew\<close>:
  the last statements of \<open>setText\<close>. Texts drawn one after the other in this way, the first
  at \<open>y0\<close>.\<close>

definition heldY :: "real \<Rightarrow> real \<Rightarrow> real" where
  "heldY y0 yNew =
     (if doubleMinus yNew y0 > 0 then doubleMinus yNew (doubleMinus yNew y0)
      else doubleMinus yNew 11.5)"

fun chained :: "real \<Rightarrow> (text_call \<times> real) list \<Rightarrow> bool" where
  "chained y0 [] = True"
| "chained y0 (p # ps) = (tc_y (fst p) = y0 \<and> chained (heldY y0 (snd p)) ps)"

text \<open>The text drawn for a cell.\<close>

definition cellText :: "environment \<Rightarrow> options \<Rightarrow> cell \<Rightarrow> jsvalue" where
  "cellText env opts col =
     valueOrTransliterate env opts
       (Str (toString env (if price col then Str (prettyPrice env opts (cell_value col)) else cell_value col)))"

text \<open>
  Texts drawn one below the other at \<open>x\<close> with the width \<open>w\<close>, aligned left: the first at \<open>y\<close>
  plus its margin, each next one at the \<open>y\<close> reported after the one before plus its margin.
  An item is a text and its margin.
\<close>

fun stacked :: "number \<Rightarrow> number \<Rightarrow> real \<Rightarrow> (jsvalue \<times> real) list \<Rightarrow> (text_call \<times> real) list \<Rightarrow> bool" where
  "stacked x w y [] ps = (ps = [])"
| "stacked x w y (item # items) [] = False"
| "stacked x w y (item # items) (p # ps) =
     (fst p = \<lparr>tc_text = fst item, tc_x = x, tc_y = y + snd item, tc_align = js ''left'',
               tc_width = Some w\<rparr> \<and>
      stacked x w (snd p) items ps)"

text \<open>The texts of a details section with their margins: for each line its label, followed by
  a colon, and its values.\<close>

definition detailValues :: "detail_line \<Rightarrow> jsstring list" where
  "detailValues line = (case detail_value line of Many vs \<Rightarrow> vs | One v \<Rightarrow> [v])"

definition detailItems :: "environment \<Rightarrow> options \<Rightarrow> detail_line list \<Rightarrow> (jsvalue \<times> real) list" where
  "detailItems env opts lines =
     concat (map (\<lambda>line. (valueOrTransliterate env opts (Str (detail_label line @ js '':'')), 8) #
                          map (\<lambda>v. (valueOrTransliterate env opts (Str v), 4)) (detailValues line)) lines)"

text \<open>A change of the storage that draws the items in this way, from the cursor's position,
  leaves the cursor at the \<open>y\<close> reported after the last and keeps the recorded heights.\<close>

definition draws :: "number \<Rightarrow> (jsvalue \<times> real) list \<Rightarrow> storage \<Rightarrow> storage \<Rightarrow> bool" where
  "draws w items s s' \<longleftrightarrow>
     textCalls (calls (document s')) = textCalls (calls (document s)) @ newTexts s s' \<and>
     stacked (cursor_x s) w (cursor_y s) items (newTexts s s') \<and>
     cursor_x s' = cursor_x s \<and>
     cursor_y s' = last (cursor_y s # map snd (newTexts s s')) \<and>
     customer_height s' = customer_height s \<and> seller_height s' = seller_height s"

section \<open>Sample inputs\<close>

text \<open>
  An environment and inputs at which the theorems below are evaluated. The sample backend
  breaks a text into lines of the given width, six units per code unit, and moves down twelve
  units per line; an empty text has no line. Numbers are rendered by their integer part.
\<close>

definition sampleLines :: "text_call \<Rightarrow> nat" where
  "sampleLines c =
     (case tc_text c of
        Num n \<Rightarrow> 1
      | Str s \<Rightarrow>
          (if s = [] then 0
           else (case tc_width c of
                   Some (Fin w) \<Rightarrow> (if w > 0 then nat \<lceil>6 * real (length s) / w\<rceil> else 1)
                 | _ \<Rightarrow> 1)))"

definition sampleEnvironment :: environment where
  "sampleEnvironment =
     \<lparr>textY = (\<lambda>d c. tc_y c + 12 * real (sampleLines c)),
      imageY = (\<lambda>d p x y w h. doc_y d),
      pageWidth = 595,
      initialY = 72,
      transliterate = (\<lambda>v. v),
      finiteToString = (\<lambda>x. (if x < 0 then js ''-'' else []) @ digits (nat \<lfloor>\<bar>x\<bar>\<rfloor>))\<rparr>"

definition sampleOptions :: options where
  "sampleOptions =
     (defaultOptions (js ''NotoSans-Regular.ttf''))
       \<lparr>data_invoice := (data_invoice (defaultOptions (js ''NotoSans-Regular.ttf'')))
          \<lparr>currency := Some (js ''EUR'')\<rparr>\<rparr>"

definition sampleStorage :: storage where
  "sampleStorage = newStorage sampleEnvironment"

definition sampleRow :: "cell list" where
  "sampleRow =
     [\<lparr>cell_value = Str (js ''Nike Air Max, limited edition, size 42, colour red''), price = False\<rparr>,
      \<lparr>cell_value = Num (Fin 1), price = False\<rparr>,
      \<lparr>cell_value = Str (js ''53''), price = True\<rparr>]"

definition sampleTwoColumns :: "cell list" where
  "sampleTwoColumns =
     [\<lparr>cell_value = Str (js ''Shipping''), price = False\<rparr>,
      \<lparr>cell_value = Str (js ''5''), price = True\<rparr>]"

text \<open>
  A backend with pages: a text that would end below 770 is drawn from the top of a new page,
  at 72, and the \<open>y\<close> reported after it is on that page. A storage whose document is near the
  bottom of a page.
\<close>

definition pagingEnvironment :: environment where
  "pagingEnvironment =
     sampleEnvironment
       \<lparr>textY := (\<lambda>d c. if 770 < tc_y c + 12 * real (sampleLines c)
                         then 72 + 12 * real (sampleLines c)
                         else tc_y c + 12 * real (sampleLines c))\<rparr>"

definition pagedStorage :: storage where
  "pagedStorage = (newStorage pagingEnvironment)\<lparr>document := \<lparr>doc_y = 760, calls = []\<rparr>\<rparr>"

text \<open>The sample backend computing the \<open>y\<close> it reports in doubles, as a JavaScript backend does.\<close>

definition doubleEnvironment :: environment where
  "doubleEnvironment =
     sampleEnvironment\<lparr>textY := (\<lambda>d c. double (tc_y c + 12 * real (sampleLines c)))\<rparr>"

text \<open>An invoice whose customer has three lines of address and whose seller has one.\<close>

definition sampleInvoice :: options where
  "sampleInvoice =
     sampleOptions
       \<lparr>data_invoice := (data_invoice sampleOptions)
          \<lparr>customer := [\<lparr>detail_label = js ''Bill To'',
                          detail_value = Many [js ''Ada Lovelace'', js ''12 St James Square'', js ''London'']\<rparr>],
            seller := [\<lparr>detail_label = js ''Bill From'', detail_value = One (js ''Acme'')\<rparr>]\<rparr>\<rparr>"

section \<open>Lemmas\<close>

subsection \<open>Texts and table rows\<close>

lemma js_distinct [simp]:
  "js ''normal'' \<noteq> js ''bold''" "js ''bold'' \<noteq> js ''normal''"
  "js ''normal'' \<noteq> js ''fallback''" "js ''bold'' \<noteq> js ''fallback''"
  by (simp_all add: js_def)

lemma textCalls_append: "textCalls (xs @ ys) = textCalls xs @ textCalls ys"
  by (induction xs rule: textCalls.induct) simp_all

lemma registrations_append: "registrations (xs @ ys) = registrations xs @ registrations ys"
  by (induction xs rule: registrations.induct) simp_all

lemma getFontOrFallback_eq:
  "getFontOrFallback env opts t v st =
     Inr (if usesFallback env opts v then fallback_name (fallback (fonts (style opts))) else weightName opts t,
          if usesFallback env opts v \<and> \<not> loaded st then registerFallback opts st else st)"
  by (simp add: getFontOrFallback_def Let_def fontsName_def test_def usesFallback_def weightName_def
      registerFallback_def)

lemma setText_Inr: "\<exists>st'. setText env opts tx options st = Inr st'"
  by (simp add: setText_def Let_def getFontOrFallback_eq)

lemma onDocument_simps [simp]:
  "cursor_x (onDocument f st) = cursor_x st"
  "cursor_y (onDocument f st) = cursor_y st"
  "customer_height (onDocument f st) = customer_height st"
  "seller_height (onDocument f st) = seller_height st"
  "loaded (onDocument f st) = loaded st"
  "document (onDocument f st) = f (document st)"
  by (simp_all add: onDocument_def)

lemma call_simps [simp]:
  "doc_y (call c d) = doc_y d"
  "calls (call c d) = calls d @ [c]"
  by (simp_all add: call_def)

lemma drawText_simps [simp]:
  "doc_y (drawText env c d) = textY env d c"
  "calls (drawText env c d) = calls d @ [Text c (textY env d c)]"
  by (simp_all add: drawText_def Let_def)

lemma registerFallback_simps [simp]:
  "cursor_x (registerFallback opts st) = cursor_x st"
  "cursor_y (registerFallback opts st) = cursor_y st"
  "customer_height (registerFallback opts st) = customer_height st"
  "seller_height (registerFallback opts st) = seller_height st"
  "loaded (registerFallback opts st)"
  "document (registerFallback opts st) =
     call (RegisterFont (fallback_name (fallback (fonts (style opts))))
        (fallback_path (fallback (fonts (style opts))))) (document st)"
  by (simp_all add: registerFallback_def)

lemma setText_props:
  assumes "setText env opts tx options st = Inr st'"
  shows setText_calls:
      "textCalls (calls (document st')) =
         textCalls (calls (document st)) @ [(drawn env opts tx options st, doc_y (document st'))]"
    and setText_cursor_x: "cursor_x st' = cursor_x st"
    and setText_heights: "customer_height st' = customer_height st" "seller_height st' = seller_height st"
    and setText_cursor_y:
      "cursor_y st' =
         (if skipDown options = Some True
          then heldY (cursor_y st + orDefault (marginTop options) 0) (doc_y (document st'))
          else doc_y (document st'))"
    and setText_reported: "\<exists>d. doc_y (document st') = textY env d (drawn env opts tx options st)"
    and setText_loaded: "loaded st' \<longleftrightarrow> loaded st \<or> usesFallback env opts tx"
    and setText_registrations:
      "registrations (calls (document st')) =
         registrations (calls (document st)) @
           (if usesFallback env opts tx \<and> \<not> loaded st
            then [(fallback_name (fallback (fonts (style opts))), fallback_path (fallback (fonts (style opts))))]
            else [])"
proof -
  define mt where "mt = orDefault (marginTop options) 0"
  define st1 where "st1 =
     (if orDefault (color options) [] = []
      then (if orDefault (colorCode options) (js ''primary'') = js ''primary''
            then onDocument (call (FillColor (primaryColor (text_style (style opts)))))
                   (st\<lparr>cursor_y := cursor_y st + mt\<rparr>)
            else onDocument (call (FillColor (secondaryColor (text_style (style opts)))))
                   (st\<lparr>cursor_y := cursor_y st + mt\<rparr>))
      else st\<lparr>cursor_y := cursor_y st + mt\<rparr>)"
  define st2 where "st2 = (if usesFallback env opts tx \<and> \<not> loaded st1 then registerFallback opts st1 else st1)"
  define nm where "nm = (if usesFallback env opts tx then fallback_name (fallback (fonts (style opts)))
                         else weightName opts (Some (orDefault (fontWeight options) (js ''normal''))))"
  define st3 where "st3 =
     onDocument (call (FontSize (if orDefault (fontSize options) (js ''regular'') = js ''regular''
                           then regularSize (text_style (style opts))
                           else headingSize (text_style (style opts)))))
       (onDocument (call (FillColor (orDefault (color options) [])))
         (onDocument (call (Font nm)) st2))"
  define st4 where "st4 = onDocument (drawText env
       \<lparr>tc_text = valueOrTransliterate env opts tx, tc_x = cursor_x st3,
        tc_y = cursor_y st3, tc_align = orDefault (align options) (js ''left''),
        tc_width = maxWidth options\<rparr>) st3"
  define diff where "diff = doubleMinus (doc_y (document st4)) (cursor_y st4)"
  define st5 where "st5 = st4\<lparr>cursor_y := doc_y (document st4)\<rparr>"
  have "setText env opts tx options st =
      Inr (if skipDown options = Some True
           then (if diff > 0 then st5\<lparr>cursor_y := doubleMinus (cursor_y st5) diff\<rparr>
                 else st5\<lparr>cursor_y := doubleMinus (cursor_y st5) 11.5\<rparr>)
           else st5)"
    unfolding setText_def Let_def getFontOrFallback_eq st5_def diff_def st4_def st3_def nm_def
      st2_def st1_def mt_def
    by (simp only: sum.case prod.case)
  with assms have eq: "st' = (if skipDown options = Some True
           then (if diff > 0 then st5\<lparr>cursor_y := doubleMinus (cursor_y st5) diff\<rparr>
                 else st5\<lparr>cursor_y := doubleMinus (cursor_y st5) 11.5\<rparr>)
           else st5)"
    by simp
  have s1: "cursor_x st1 = cursor_x st" "cursor_y st1 = cursor_y st + mt"
      "customer_height st1 = customer_height st" "seller_height st1 = seller_height st"
      "loaded st1 = loaded st"
      "textCalls (calls (document st1)) = textCalls (calls (document st))"
      "registrations (calls (document st1)) = registrations (calls (document st))"
    by (simp_all add: st1_def textCalls_append registrations_append)
  have s2: "cursor_x st2 = cursor_x st" "cursor_y st2 = cursor_y st + mt"
      "customer_height st2 = customer_height st" "seller_height st2 = seller_height st"
      "loaded st2 \<longleftrightarrow> loaded st \<or> usesFallback env opts tx"
      "textCalls (calls (document st2)) = textCalls (calls (document st))"
      "registrations (calls (document st2)) = registrations (calls (document st)) @
           (if usesFallback env opts tx \<and> \<not> loaded st
            then [(fallback_name (fallback (fonts (style opts))), fallback_path (fallback (fonts (style opts))))]
            else [])"
    using s1 by (auto simp add: st2_def textCalls_append registrations_append)
  have s3: "cursor_x st3 = cursor_x st" "cursor_y st3 = cursor_y st + mt"
      "customer_height st3 = customer_height st" "seller_height st3 = seller_height st"
      "loaded st3 = loaded st2"
      "textCalls (calls (document st3)) = textCalls (calls (document st))"
      "registrations (calls (document st3)) = registrations (calls (document st2))"
    using s2 by (simp_all add: st3_def textCalls_append registrations_append)
  have dr: "\<lparr>tc_text = valueOrTransliterate env opts tx, tc_x = cursor_x st3,
        tc_y = cursor_y st3, tc_align = orDefault (align options) (js ''left''),
        tc_width = maxWidth options\<rparr> = drawn env opts tx options st"
    by (simp add: drawn_def s3 mt_def)
  have s4: "cursor_x st4 = cursor_x st" "cursor_y st4 = cursor_y st + mt"
      "customer_height st4 = customer_height st" "seller_height st4 = seller_height st"
      "loaded st4 = loaded st2"
      "textCalls (calls (document st4)) =
         textCalls (calls (document st)) @ [(drawn env opts tx options st, doc_y (document st4))]"
      "registrations (calls (document st4)) = registrations (calls (document st2))"
      "doc_y (document st4) = textY env (document st3) (drawn env opts tx options st)"
    using s3 unfolding st4_def dr by (simp_all add: textCalls_append registrations_append)
  have s5: "cursor_x st' = cursor_x st4" "customer_height st' = customer_height st4"
      "seller_height st' = seller_height st4" "loaded st' = loaded st4"
      "document st' = document st4"
    by (simp_all add: eq st5_def)
  show "textCalls (calls (document st')) =
         textCalls (calls (document st)) @ [(drawn env opts tx options st, doc_y (document st'))]"
    by (simp add: s5 s4)
  show "cursor_x st' = cursor_x st" by (simp add: s5 s4)
  show "customer_height st' = customer_height st" by (simp add: s5 s4)
  show "seller_height st' = seller_height st" by (simp add: s5 s4)
  show "cursor_y st' =
         (if skipDown options = Some True
          then heldY (cursor_y st + orDefault (marginTop options) 0) (doc_y (document st'))
          else doc_y (document st'))"
    unfolding s5 by (simp add: eq st5_def diff_def s4 mt_def heldY_def)
  show "\<exists>d. doc_y (document st') = textY env d (drawn env opts tx options st)"
    unfolding s5 using s4(8) by blast
  show "loaded st' \<longleftrightarrow> loaded st \<or> usesFallback env opts tx"
    by (simp add: s5 s4 s2)
  show "registrations (calls (document st')) =
         registrations (calls (document st)) @
           (if usesFallback env opts tx \<and> \<not> loaded st
            then [(fallback_name (fallback (fonts (style opts))), fallback_path (fallback (fonts (style opts))))]
            else [])"
    unfolding s5 s4 s2 by (rule refl)
qed

lemma tableColumn_alt:
  "tableColumn env opts fw cc n i col (start, w, maxY, st) =
     (case setText env opts
       (Str (toString env (if price col then Str (prettyPrice env opts (cell_value col)) else cell_value col)))
       (noOptions\<lparr>colorCode := Some cc, maxWidth := Some (columnWidth opts n i w),
          fontWeight := Some fw, skipDown := Some True\<rparr>)
       (setCursorX (columnX opts n i start) st) of
        Inl e \<Rightarrow> Inl e
      | Inr st1 \<Rightarrow>
          Inr (numAdd start (numAdd (columnWidth opts n i w) (Fin 10)), columnWidth opts n i w,
               (if doc_y (document st1) \<ge> maxY then doc_y (document st1) else maxY), st1))"
  unfolding tableColumn_def columnX_def columnWidth_def
  by (simp add: Let_def split: sum.splits del: toString.simps numAdd.simps)

lemma tableColumn_eq:
  obtains st1 where
    "setText env opts
       (Str (toString env (if price col then Str (prettyPrice env opts (cell_value col)) else cell_value col)))
       (noOptions\<lparr>colorCode := Some cc, maxWidth := Some (columnWidth opts n i w),
          fontWeight := Some fw, skipDown := Some True\<rparr>)
       (setCursorX (columnX opts n i start) st) = Inr st1"
    "tableColumn env opts fw cc n i col (start, w, maxY, st) =
      Inr (numAdd start (numAdd (columnWidth opts n i w) (Fin 10)), columnWidth opts n i w,
           (if doc_y (document st1) \<ge> maxY then doc_y (document st1) else maxY), st1)"
proof -
  obtain st1 where st1: "setText env opts
       (Str (toString env (if price col then Str (prettyPrice env opts (cell_value col)) else cell_value col)))
       (noOptions\<lparr>colorCode := Some cc, maxWidth := Some (columnWidth opts n i w),
          fontWeight := Some fw, skipDown := Some True\<rparr>)
       (setCursorX (columnX opts n i start) st) = Inr st1"
    using setText_Inr by blast
  have "tableColumn env opts fw cc n i col (start, w, maxY, st) =
      Inr (numAdd start (numAdd (columnWidth opts n i w) (Fin 10)), columnWidth opts n i w,
           (if doc_y (document st1) \<ge> maxY then doc_y (document st1) else maxY), st1)"
    unfolding tableColumn_alt st1 by simp
  with st1 show thesis by (rule that)
qed

lemma tableColumn_Inr: "\<exists>r. tableColumn env opts fw cc n i col acc = Inr r"
proof -
  obtain start w maxY st where acc: "acc = (start, w, maxY, st)"
    by (cases acc) auto
  show ?thesis
    unfolding acc by (rule tableColumn_eq [where env = env and opts = opts and fw = fw and cc = cc
          and n = n and i = i and col = col and start = start and w = w and maxY = maxY and st = st]) blast
qed

lemma tableColumn_props:
  assumes "tableColumn env opts fw cc n i col (start, w, maxY, st) = Inr (start', w', maxY', st')"
  shows tableColumn_width: "w' = columnWidth opts n i w"
    and tableColumn_start: "start' = numAdd start (numAdd w' (Fin 10))"
    and tableColumn_maxY: "maxY' = max maxY (doc_y (document st'))"
    and tableColumn_calls:
      "\<exists>c. textCalls (calls (document st')) = textCalls (calls (document st)) @ [(c, doc_y (document st'))]
           \<and> tc_x c = columnX opts n i start \<and> tc_width c = Some w' \<and> tc_y c = cursor_y st
           \<and> (\<exists>d. doc_y (document st') = textY env d c)"
    and tableColumn_heights: "customer_height st' = customer_height st" "seller_height st' = seller_height st"
proof -
  obtain st1 where st1: "setText env opts
       (Str (toString env (if price col then Str (prettyPrice env opts (cell_value col)) else cell_value col)))
       (noOptions\<lparr>colorCode := Some cc, maxWidth := Some (columnWidth opts n i w),
          fontWeight := Some fw, skipDown := Some True\<rparr>)
       (setCursorX (columnX opts n i start) st) = Inr st1"
    and res: "tableColumn env opts fw cc n i col (start, w, maxY, st) =
      Inr (numAdd start (numAdd (columnWidth opts n i w) (Fin 10)), columnWidth opts n i w,
           (if doc_y (document st1) \<ge> maxY then doc_y (document st1) else maxY), st1)"
    by (rule tableColumn_eq)
  have eqs: "start' = numAdd start (numAdd (columnWidth opts n i w) (Fin 10))"
      "w' = columnWidth opts n i w"
      "maxY' = (if doc_y (document st1) \<ge> maxY then doc_y (document st1) else maxY)" "st' = st1"
    using assms unfolding res by auto
  show "w' = columnWidth opts n i w" by (rule eqs)
  show "start' = numAdd start (numAdd w' (Fin 10))" using eqs by simp
  show "maxY' = max maxY (doc_y (document st'))" using eqs by (simp add: max_def)
  have d: "drawn env opts
       (Str (toString env (if price col then Str (prettyPrice env opts (cell_value col)) else cell_value col)))
       (noOptions\<lparr>colorCode := Some cc, maxWidth := Some (columnWidth opts n i w),
          fontWeight := Some fw, skipDown := Some True\<rparr>)
       (setCursorX (columnX opts n i start) st) =
      \<lparr>tc_text = valueOrTransliterate env opts
         (Str (toString env (if price col then Str (prettyPrice env opts (cell_value col)) else cell_value col))),
       tc_x = columnX opts n i start,
       tc_y = cursor_y st, tc_align = js ''left'', tc_width = Some (columnWidth opts n i w)\<rparr>"
    by (simp add: drawn_def noOptions_def orDefault_def setCursorX_def del: toString.simps)
  show "\<exists>c. textCalls (calls (document st')) = textCalls (calls (document st)) @ [(c, doc_y (document st'))]
           \<and> tc_x c = columnX opts n i start \<and> tc_width c = Some w' \<and> tc_y c = cursor_y st
           \<and> (\<exists>d. doc_y (document st') = textY env d c)"
    using setText_calls [OF st1] setText_reported [OF st1] eqs d
    by (simp add: setCursorX_def del: toString.simps)
  show "customer_height st' = customer_height st" "seller_height st' = seller_height st"
    using setText_heights [OF st1] eqs by (simp_all add: setCursorX_def)
qed

lemma row_loop:
  "\<exists>start' w' maxY' st' cs.
     forEachIndex (tableColumn env opts fw cc n) i cols (start, w, maxY, st) = Inr (start', w', maxY', st') \<and>
     textCalls (calls (document st')) = textCalls (calls (document st)) @ cs \<and>
     length cs = length cols \<and>
     maxY' = Max (insert maxY (snd ` set cs)) \<and>
     doc_y (document st') = last (doc_y (document st) # map snd cs) \<and>
     (\<forall>p \<in> set cs. \<exists>d. snd p = textY env d (fst p)) \<and>
     (cols \<noteq> [] \<longrightarrow> tc_y (fst (hd cs)) = cursor_y st) \<and>
     customer_height st' = customer_height st \<and> seller_height st' = seller_height st"
proof (induction cols arbitrary: i start w maxY st)
  case Nil
  show ?case by simp
next
  case (Cons col cols)
  obtain start1 w1 maxY1 st1 where
    step: "tableColumn env opts fw cc n i col (start, w, maxY, st) = Inr (start1, w1, maxY1, st1)"
    using tableColumn_Inr [of env opts fw cc n i col "(start, w, maxY, st)"] by (metis prod_cases4)
  obtain c where c: "textCalls (calls (document st1)) = textCalls (calls (document st)) @ [(c, doc_y (document st1))]"
      "tc_y c = cursor_y st" "\<exists>d. doc_y (document st1) = textY env d c"
    using tableColumn_calls [OF step] by blast
  obtain start' w' maxY' st' cs where
    rest: "forEachIndex (tableColumn env opts fw cc n) (Suc i) cols (start1, w1, maxY1, st1) = Inr (start', w', maxY', st')"
      "textCalls (calls (document st')) = textCalls (calls (document st1)) @ cs"
      "length cs = length cols"
      "maxY' = Max (insert maxY1 (snd ` set cs))"
      "doc_y (document st') = last (doc_y (document st1) # map snd cs)"
      "\<forall>p \<in> set cs. \<exists>d. snd p = textY env d (fst p)"
      "customer_height st' = customer_height st1" "seller_height st' = seller_height st1"
    using Cons.IH [of "Suc i" start1 w1 maxY1 st1] by blast
  have m: "maxY1 = max maxY (doc_y (document st1))"
    by (rule tableColumn_maxY [OF step])
  have "Max (insert maxY1 (snd ` set cs)) = Max (insert maxY (snd ` set ((c, doc_y (document st1)) # cs)))"
  proof -
    have "Max (insert maxY (snd ` set ((c, doc_y (document st1)) # cs)))
        = Max (insert maxY (insert (doc_y (document st1)) (snd ` set cs)))" by simp
    also have "\<dots> = max maxY (Max (insert (doc_y (document st1)) (snd ` set cs)))"
      by (rule Max_insert) simp_all
    also have "\<dots> = Max (insert maxY1 (snd ` set cs))"
      unfolding m by (cases "cs = []") (simp_all add: max.assoc)
    finally show ?thesis by simp
  qed
  moreover have "forEachIndex (tableColumn env opts fw cc n) i (col # cols) (start, w, maxY, st) =
      Inr (start', w', maxY', st')"
    using step rest(1) by simp
  ultimately show ?case
    using rest c tableColumn_heights [OF step]
    apply -
    apply (rule exI [of _ start'])
    apply (rule exI [of _ w'])
    apply (rule exI [of _ maxY'])
    apply (rule exI [of _ st'])
    apply (rule exI [of _ "(c, doc_y (document st1)) # cs"])
    apply simp
    done
qed

lemma row_loop_placement:
  assumes "forEachIndex (tableColumn env opts fw cc n) i cols (start, w, maxY, st) = Inr (start', w', maxY', st')"
    and "j < length cols"
  shows "tc_x (fst (newTexts st st' ! j)) =
           columnX opts n (i + j) ((nextStart w ^^ j) start) \<and>
         tc_width (fst (newTexts st st' ! j)) = Some (columnWidth opts n (i + j) w)"
  using assms
proof (induction cols arbitrary: i j start w maxY st)
  case Nil
  then show ?case by simp
next
  case (Cons col cols)
  obtain start1 w1 maxY1 st1 where
    step: "tableColumn env opts fw cc n i col (start, w, maxY, st) = Inr (start1, w1, maxY1, st1)"
    using tableColumn_Inr [of env opts fw cc n i col "(start, w, maxY, st)"] by (metis prod_cases4)
  have rest: "forEachIndex (tableColumn env opts fw cc n) (Suc i) cols (start1, w1, maxY1, st1) =
      Inr (start', w', maxY', st')"
    using Cons.prems(1) step by simp
  obtain c where c: "textCalls (calls (document st1)) = textCalls (calls (document st)) @ [(c, doc_y (document st1))]"
      "tc_x c = columnX opts n i start" "tc_width c = Some w1"
    using tableColumn_calls [OF step] by blast
  obtain cs where cs: "textCalls (calls (document st')) = textCalls (calls (document st1)) @ cs"
    using row_loop [of env opts fw cc n "Suc i" cols start1 w1 maxY1 st1] rest by auto
  have w1: "w1 = columnWidth opts n i w" by (rule tableColumn_width [OF step])
  have start1: "start1 = nextStart w1 start"
    unfolding nextStart_def by (rule tableColumn_start [OF step])
  have new: "newTexts st st' = (c, doc_y (document st1)) # newTexts st1 st'"
    by (simp add: newTexts_def cs c)
  show ?case
  proof (cases j)
    case 0
    then show ?thesis using c w1 by (simp add: new)
  next
    case (Suc k)
    then have k: "k < length cols" using Cons.prems(2) by simp
    have ih: "tc_x (fst (newTexts st1 st' ! k)) =
           columnX opts n (Suc i + k) ((nextStart w1 ^^ k) start1) \<and>
         tc_width (fst (newTexts st1 st' ! k)) = Some (columnWidth opts n (Suc i + k) w1)"
      by (rule Cons.IH [OF rest k])
    show ?thesis
    proof (cases "int (i + j) < n - 2")
      case True
      then have "int i < n - 2" by simp
      then have "w1 = w" by (simp add: w1 columnWidth_def)
      then show ?thesis using ih Suc start1 by (simp add: new funpow_swap1)
    next
      case False
      then show ?thesis using ih Suc by (simp add: new columnX_def columnWidth_def)
    qed
  qed
qed

lemma funpow_nextStart:
  "(nextStart (Fin w) ^^ j) (Fin s) = Fin (s + real j * (w + 10))"
  by (induction j) (simp_all add: algebra_simps nextStart_def)

lemma tableRowCells_alt:
  "tableRowCells env opts type columns st =
     (case forEachIndex (tableColumn env opts (rowWeight type) (rowColor type) (int (length columns)))
             0 columns (Fin (marginLeft (document_style (style opts))), flexWidth opts (length columns),
                        doc_y (document st) + 17, rowStart st) of
        Inl e \<Rightarrow> Inl e
      | Inr (start, w, maxY, st') \<Rightarrow> Inr (setCursorY maxY st'))"
  by (simp add: tableRowCells_def Let_def rowWeight_def rowColor_def rowStart_def flexWidth_def
      split: sum.splits)

lemma rowStart_simps [simp]:
  "cursor_y (rowStart st) = doc_y (document st) + 17"
  "cursor_x (rowStart st) = cursor_x st"
  "document (rowStart st) = document st"
  "customer_height (rowStart st) = customer_height st"
  "seller_height (rowStart st) = seller_height st"
  "loaded (rowStart st) = loaded st"
  by (simp_all add: rowStart_def)

lemma setCursor_simps [simp]:
  "cursor_y (setCursorY v st) = v"
  "cursor_x (setCursorY v st) = cursor_x st"
  "document (setCursorY v st) = document st"
  "customer_height (setCursorY v st) = customer_height st"
  "seller_height (setCursorY v st) = seller_height st"
  "loaded (setCursorY v st) = loaded st"
  "cursor_x (setCursorX x st) = x"
  "cursor_y (setCursorX x st) = cursor_y st"
  "document (setCursorX x st) = document st"
  "customer_height (setCursorX x st) = customer_height st"
  "seller_height (setCursorX x st) = seller_height st"
  "loaded (setCursorX x st) = loaded st"
  by (simp_all add: setCursorY_def setCursorX_def)

lemma newTexts_rowStart [simp]: "newTexts (rowStart st) st' = newTexts st st'"
  by (simp add: newTexts_def)

lemma tableRowCells_cases:
  obtains start' w' maxY' st1 cs where
    "forEachIndex (tableColumn env opts (rowWeight type) (rowColor type) (int (length columns)))
             0 columns (Fin (marginLeft (document_style (style opts))), flexWidth opts (length columns),
                        doc_y (document st) + 17, rowStart st) = Inr (start', w', maxY', st1)"
    "tableRowCells env opts type columns st = Inr (setCursorY maxY' st1)"
    "textCalls (calls (document st1)) = textCalls (calls (document st)) @ cs"
    "length cs = length columns"
    "maxY' = Max (insert (doc_y (document st) + 17) (snd ` set cs))"
    "doc_y (document st1) = last (doc_y (document st) # map snd cs)"
    "\<forall>p \<in> set cs. \<exists>d. snd p = textY env d (fst p)"
    "columns \<noteq> [] \<longrightarrow> tc_y (fst (hd cs)) = doc_y (document st) + 17"
    "customer_height st1 = customer_height st" "seller_height st1 = seller_height st"
proof -
  obtain start' w' maxY' st1 cs where
    loop: "forEachIndex (tableColumn env opts (rowWeight type) (rowColor type) (int (length columns)))
             0 columns (Fin (marginLeft (document_style (style opts))), flexWidth opts (length columns),
                        doc_y (document st) + 17, rowStart st) = Inr (start', w', maxY', st1)"
    and props: "textCalls (calls (document st1)) = textCalls (calls (document (rowStart st))) @ cs"
    "length cs = length columns"
    "maxY' = Max (insert (doc_y (document st) + 17) (snd ` set cs))"
    "doc_y (document st1) = last (doc_y (document (rowStart st)) # map snd cs)"
    "\<forall>p \<in> set cs. \<exists>d. snd p = textY env d (fst p)"
    "columns \<noteq> [] \<longrightarrow> tc_y (fst (hd cs)) = cursor_y (rowStart st)"
    "customer_height st1 = customer_height (rowStart st)" "seller_height st1 = seller_height (rowStart st)"
    using row_loop [of env opts "rowWeight type" "rowColor type" "int (length columns)" 0 columns
        "Fin (marginLeft (document_style (style opts)))" "flexWidth opts (length columns)"
        "doc_y (document st) + 17" "rowStart st"]
    by blast
  have "tableRowCells env opts type columns st = Inr (setCursorY maxY' st1)"
    unfolding tableRowCells_alt loop by simp
  with loop props show thesis
    by (intro that [of start' w' maxY' st1 cs]) simp_all
qed

lemma generateLine_simps [simp]:
  "cursor_y (generateLine env opts st) = cursor_y st + (regularSize (text_style (style opts)) + 2)"
  "cursor_x (generateLine env opts st) = cursor_x st"
  "customer_height (generateLine env opts st) = customer_height st"
  "seller_height (generateLine env opts st) = seller_height st"
  "loaded (generateLine env opts st) = loaded st"
  "doc_y (document (generateLine env opts st)) = doc_y (document st)"
  "textCalls (calls (document (generateLine env opts st))) = textCalls (calls (document st))"
  "registrations (calls (document (generateLine env opts st))) = registrations (calls (document st))"
  by (simp_all add: generateLine_def Let_def textCalls_append registrations_append)

lemma generateTableRow_alt:
  assumes "tableRowCells env opts type columns st = Inr st1"
  shows "generateTableRow env opts type columns st =
           Inr (if type = Header then generateLine env opts st1 else st1)"
  using assms by (simp add: generateTableRow_def)

lemma newTexts_append:
  assumes "textCalls (calls (document st')) = textCalls (calls (document st)) @ cs"
  shows "newTexts st st' = cs"
  using assms by (simp add: newTexts_def)

lemma flexWidth_Fin:
  assumes "3 \<le> n"
  shows "flexWidth opts n = Fin ((textPosition (header_style (style opts)) - marginLeft (document_style (style opts))
        - marginRight (document_style (style opts))) / real (n - 2))"
proof -
  have "int n - 2 = int (n - 2)" using assms by simp
  moreover have "int (n - 2) \<noteq> 0" using assms by simp
  ultimately show ?thesis by (simp add: flexWidth_def jsDivide_def)
qed

lemma generateTableRow_cases:
  obtains st1 st' cs where
    "tableRowCells env opts type columns st = Inr st1"
    "generateTableRow env opts type columns st = Inr st'"
    "st' = (if type = Header then generateLine env opts st1 else st1)"
    "newTexts st st1 = cs" "newTexts st st' = cs"
    "length cs = length columns"
    "cursor_y st1 = Max (insert (doc_y (document st) + 17) (snd ` set cs))"
    "doc_y (document st') = last (doc_y (document st) # map snd cs)"
    "\<forall>p \<in> set cs. \<exists>d. snd p = textY env d (fst p)"
    "columns \<noteq> [] \<longrightarrow> tc_y (fst (hd cs)) = doc_y (document st) + 17"
    "\<forall>j < length columns.
        tc_x (fst (cs ! j)) = columnX opts (int (length columns)) j
           ((nextStart (flexWidth opts (length columns)) ^^ j) (Fin (marginLeft (document_style (style opts))))) \<and>
        tc_width (fst (cs ! j)) = Some (columnWidth opts (int (length columns)) j (flexWidth opts (length columns)))"
    "customer_height st' = customer_height st" "seller_height st' = seller_height st"
proof -
  obtain start' w' maxY' st1 cs where
    loop: "forEachIndex (tableColumn env opts (rowWeight type) (rowColor type) (int (length columns)))
             0 columns (Fin (marginLeft (document_style (style opts))), flexWidth opts (length columns),
                        doc_y (document st) + 17, rowStart st) = Inr (start', w', maxY', st1)"
    and cells: "tableRowCells env opts type columns st = Inr (setCursorY maxY' st1)"
    and props: "textCalls (calls (document st1)) = textCalls (calls (document st)) @ cs"
    "length cs = length columns"
    "maxY' = Max (insert (doc_y (document st) + 17) (snd ` set cs))"
    "doc_y (document st1) = last (doc_y (document st) # map snd cs)"
    "\<forall>p \<in> set cs. \<exists>d. snd p = textY env d (fst p)"
    "columns \<noteq> [] \<longrightarrow> tc_y (fst (hd cs)) = doc_y (document st) + 17"
    "customer_height st1 = customer_height st" "seller_height st1 = seller_height st"
    by (rule tableRowCells_cases)
  define st2 where "st2 = setCursorY maxY' st1"
  define st' where "st' = (if type = Header then generateLine env opts st2 else st2)"
  have row: "generateTableRow env opts type columns st = Inr st'"
    unfolding st'_def st2_def by (rule generateTableRow_alt [OF cells])
  have n1: "newTexts st st1 = cs" by (rule newTexts_append [OF props(1)])
  have n2: "newTexts st st2 = cs" using n1 by (simp add: newTexts_def st2_def)
  have n': "newTexts st st' = cs" using n2 by (simp add: newTexts_def st'_def)
  have place: "\<forall>j < length columns.
        tc_x (fst (cs ! j)) = columnX opts (int (length columns)) j
           ((nextStart (flexWidth opts (length columns)) ^^ j) (Fin (marginLeft (document_style (style opts))))) \<and>
        tc_width (fst (cs ! j)) = Some (columnWidth opts (int (length columns)) j (flexWidth opts (length columns)))"
    using row_loop_placement [OF loop] n1 by simp
  show thesis
  proof (rule that [of st2 st' cs])
    show "tableRowCells env opts type columns st = Inr st2" using cells by (simp add: st2_def)
    show "generateTableRow env opts type columns st = Inr st'" by (rule row)
    show "st' = (if type = Header then generateLine env opts st2 else st2)" by (rule st'_def)
    show "newTexts st st2 = cs" by (rule n2)
    show "newTexts st st' = cs" by (rule n')
    show "length cs = length columns" by (rule props)
    show "cursor_y st2 = Max (insert (doc_y (document st) + 17) (snd ` set cs))"
      using props(3) by (simp add: st2_def)
    show "doc_y (document st') = last (doc_y (document st) # map snd cs)"
      using props(4) by (simp add: st'_def st2_def)
    show "\<forall>p \<in> set cs. \<exists>d. snd p = textY env d (fst p)" by (rule props)
    show "columns \<noteq> [] \<longrightarrow> tc_y (fst (hd cs)) = doc_y (document st) + 17" by (rule props)
    show "\<forall>j < length columns.
        tc_x (fst (cs ! j)) = columnX opts (int (length columns)) j
           ((nextStart (flexWidth opts (length columns)) ^^ j) (Fin (marginLeft (document_style (style opts))))) \<and>
        tc_width (fst (cs ! j)) = Some (columnWidth opts (int (length columns)) j (flexWidth opts (length columns)))"
      by (rule place)
    show "customer_height st' = customer_height st" using props by (simp add: st'_def st2_def)
    show "seller_height st' = seller_height st" using props by (simp add: st'_def st2_def)
  qed
qed

lemma sampleOptions_layout:
  "marginLeft (document_style (style sampleOptions)) = 30"
  "marginRight (document_style (style sampleOptions)) = 30"
  "textPosition (header_style (style sampleOptions)) = 330"
  "position (quantity (table_style (style sampleOptions))) = 330"
  "column_maxWidth (quantity (table_style (style sampleOptions))) = 140"
  "position (total (table_style (style sampleOptions))) = 490"
  "column_maxWidth (total (table_style (style sampleOptions))) = 80"
  "regularSize (text_style (style sampleOptions)) = 10"
  by (simp_all add: sampleOptions_def defaultOptions_def)

subsection \<open>Digits\<close>

lemma digits_step: "10 \<le> n \<Longrightarrow> digits n = digits (n div 10) @ [48 + n mod 10]"
  by (subst digits.simps) simp

lemma digits_small: "n < 10 \<Longrightarrow> digits n = [48 + n]"
  by (subst digits.simps) simp
lemma div_10_10: "(n::nat) div 10 div 10 = n div 100"
  by (simp add: div_mult2_eq [symmetric])
lemma digits_51: "digits 51 = [53, 49]"
    by (simp add: digits_step digits_small)
lemma length_digits_pos: "0 < length (digits n)"
  by (subst digits.simps) simp
lemma length_digits_ge: "100 \<le> n \<Longrightarrow> 3 \<le> length (digits n)"
  using length_digits_pos [of "n div 10 div 10"]
  by (simp add: digits_step [of n] digits_step [of "n div 10"] Suc_le_eq)
lemma digits_hundred:
  assumes "100 \<le> n"
  shows "digits n = digits (n div 100) @ [48 + n div 10 mod 10, 48 + n mod 10]"
  using assms by (simp add: digits_step [of n] digits_step [of "n div 10"] div_10_10)

lemma fixed2_eq:
  "fixed2 x = (let n = nat \<lfloor>x * 100 + 1 / 2\<rfloor>
               in digits (n div 100) @ js ''.'' @ [48 + n div 10 mod 10, 48 + n mod 10])"
proof -
  define n where "n = nat \<lfloor>x * 100 + 1 / 2\<rfloor>"
  consider "n = 0" | "0 < n" "n < 10" | "10 \<le> n" "n < 100" | "100 \<le> n" by linarith
  then have "(let m = (if n = 0 then js ''0'' else digits n);
          k = length m;
          m = (if k \<le> 2 then replicate (3 - k) 48 @ m else m);
          k = (if k \<le> 2 then 3 else k)
      in take (k - 2) m @ js ''.'' @ drop (k - 2) m) =
      digits (n div 100) @ js ''.'' @ [48 + n div 10 mod 10, 48 + n mod 10]"
  proof cases
    case 1
    then show ?thesis by (simp add: js_def digits_small)
  next
    case 2
    then show ?thesis by (simp add: digits_small numeral_2_eq_2)
  next
    case 3
    then have "n div 10 < 10" by simp
    then show ?thesis using 3 by (simp add: digits_step digits_small)
  next
    case 4
    have d: "digits n = digits (n div 100) @ [48 + n div 10 mod 10, 48 + n mod 10]"
      by (rule digits_hundred [OF 4])
    have "3 \<le> length (digits n)" by (rule length_digits_ge [OF 4])
    then have k: "\<not> length (digits n) \<le> 2" by simp
    have l: "length (digits n) - 2 = length (digits (n div 100))" by (simp add: d)
    have "n \<noteq> 0" using 4 by simp
    then have "(let m = (if n = 0 then js ''0'' else digits n);
          k = length m;
          m = (if k \<le> 2 then replicate (3 - k) 48 @ m else m);
          k = (if k \<le> 2 then 3 else k)
      in take (k - 2) m @ js ''.'' @ drop (k - 2) m) =
      take (length (digits n) - 2) (digits n) @ js ''.'' @ drop (length (digits n) - 2) (digits n)"
      using k by (simp add: Let_def)
    also have "\<dots> = digits (n div 100) @ js ''.'' @ [48 + n div 10 mod 10, 48 + n mod 10]"
      unfolding l by (simp add: d)
    finally show ?thesis .
  qed
  then show ?thesis
    unfolding fixed2_def n_def [symmetric] by (simp add: Let_def)
qed

lemma digits_range: "\<forall>c \<in> set (digits n). 48 \<le> c \<and> c \<le> 57"
proof (induction n rule: digits.induct)
  case (1 n)
  show ?case
  proof (cases "n < 10")
    case True
    then show ?thesis by (simp add: digits_small)
  next
    case False
    then have "digits n = digits (n div 10) @ [48 + n mod 10]" by (simp add: digits_step)
    moreover have "n mod 10 \<le> 9" by simp
    ultimately show ?thesis using 1 False by auto
  qed
qed

subsection \<open>Sections of the document\<close>

lemma steps_trans:
  assumes "steps env opts a b" and "steps env opts b c"
  shows "steps env opts a c"
  using assms(2) assms(1)
  by (induction rule: steps.induct) (auto intro: steps.intros)

lemma silent_step: "silent st st' \<Longrightarrow> steps env opts st st'"
  by (rule steps_silent [OF steps_refl])

lemma text_step: "setText env opts tx options st = Inr st' \<Longrightarrow> steps env opts st st'"
  by (rule steps_text [OF steps_refl])

lemma steps_fontInv:
  assumes "steps env opts st st'" and "fontInv opts base st"
  shows "fontInv opts base st'"
  using assms
proof (induction rule: steps.induct)
  case (steps_refl st)
  then show ?case .
next
  case (steps_silent st st1 st2)
  then show ?case by (simp add: silent_def fontInv_def)
next
  case (steps_text st st1 tx options st2)
  then have "fontInv opts base st1" by simp
  then show ?case
    using setText_loaded [OF steps_text(2)] setText_registrations [OF steps_text(2)]
    by (auto simp add: fontInv_def)
qed

lemma steps_prefix:
  assumes "steps env opts st st'"
  shows "\<exists>rest. textCalls (calls (document st')) = textCalls (calls (document st)) @ rest"
  using assms
proof (induction rule: steps.induct)
  case (steps_text st st1 tx options st2)
  then show ?case using setText_calls [OF steps_text(2)] by auto
qed (auto simp add: silent_def)

lemma forEach_steps:
  assumes "\<And>x s. \<exists>s'. f x s = Inr s' \<and> steps env opts s s'"
  shows "\<exists>s'. forEach f xs s = Inr s' \<and> steps env opts s s'"
proof (induction xs arbitrary: s)
  case Nil
  show ?case by (simp add: steps_refl)
next
  case (Cons x xs)
  obtain s1 where s1: "f x s = Inr s1" "steps env opts s s1"
    using assms by blast
  obtain s2 where s2: "forEach f xs s1 = Inr s2" "steps env opts s1 s2"
    using Cons.IH by blast
  show ?case
    using s1 s2 by (auto intro: steps_trans)
qed

lemma forEach_inv:
  assumes "\<And>x s s'. f x s = Inr s' \<Longrightarrow> P s \<Longrightarrow> P s'"
    and "forEach f xs s = Inr s'" and "P s"
  shows "P s'"
  using assms(2,3)
proof (induction xs arbitrary: s)
  case Nil
  then show ?case by simp
next
  case (Cons x xs)
  then show ?case
    using assms(1) by (auto split: sum.splits)
qed

lemma setText_steps: "\<exists>st'. setText env opts tx options st = Inr st' \<and> steps env opts st st'"
  using setText_Inr [of env opts tx options st] by (auto intro: text_step)

lemma silent_simps [simp]:
  "silent st (setCursorX x st)" "silent st (setCursorY y st)"
  "silent st (st\<lparr>cursor_y := y\<rparr>)" "silent st (rowStart st)"
  "silent st (generateLine env opts st)"
  "silent st (st\<lparr>customer_height := h\<rparr>)" "silent st (st\<lparr>seller_height := h\<rparr>)"
  "silent st (partsStart st)"
  by (simp_all add: silent_def partsStart_def)

lemma generateTableRow_steps:
  "\<exists>st'. generateTableRow env opts type columns st = Inr st' \<and> steps env opts st st'"
proof -
  have loop: "\<exists>a b c st'. forEachIndex (tableColumn env opts fw cc n) i cols (start, w, maxY, s) = Inr (a, b, c, st')
      \<and> steps env opts s st'" for fw cc n i cols start w maxY s
  proof (induction cols arbitrary: i start w maxY s)
    case Nil
    show ?case by (simp add: steps_refl)
  next
    case (Cons col cols)
    obtain s1 where s1: "setText env opts
       (Str (toString env (if price col then Str (prettyPrice env opts (cell_value col)) else cell_value col)))
       (noOptions\<lparr>colorCode := Some cc, maxWidth := Some (columnWidth opts n i w),
          fontWeight := Some fw, skipDown := Some True\<rparr>)
       (setCursorX (columnX opts n i start) s) = Inr s1"
      and step: "tableColumn env opts fw cc n i col (start, w, maxY, s) =
      Inr (numAdd start (numAdd (columnWidth opts n i w) (Fin 10)), columnWidth opts n i w,
           (if doc_y (document s1) \<ge> maxY then doc_y (document s1) else maxY), s1)"
      by (rule tableColumn_eq)
    have "steps env opts s s1"
      by (rule steps_text [OF silent_step s1]) simp
    moreover obtain a b c st' where "forEachIndex (tableColumn env opts fw cc n) (Suc i) cols
        (numAdd start (numAdd (columnWidth opts n i w) (Fin 10)), columnWidth opts n i w,
           (if doc_y (document s1) \<ge> maxY then doc_y (document s1) else maxY), s1) = Inr (a, b, c, st')"
      "steps env opts s1 st'"
      using Cons.IH by blast
    ultimately show ?case
      using step by (auto intro: steps_trans)
  qed
  obtain a b c st1 where l: "forEachIndex (tableColumn env opts (rowWeight type) (rowColor type) (int (length columns)))
             0 columns (Fin (marginLeft (document_style (style opts))), flexWidth opts (length columns),
                        doc_y (document st) + 17, rowStart st) = Inr (a, b, c, st1)"
    and s: "steps env opts (rowStart st) st1"
    using loop by blast
  have "steps env opts st (rowStart st)" by (rule silent_step) simp
  then have "steps env opts st st1" using s by (rule steps_trans)
  then have "steps env opts st (setCursorY c st1)"
    by (rule steps_silent) simp
  moreover have "steps env opts st (generateLine env opts (setCursorY c st1))"
    by (rule steps_silent [OF calculation]) simp
  moreover have "tableRowCells env opts type columns st = Inr (setCursorY c st1)"
    unfolding tableRowCells_alt l by simp
  ultimately show ?thesis
    by (simp add: generateTableRow_def)
qed

lemma generateHeader_steps:
  "\<exists>st'. generateHeader env opts st = Inr st' \<and> steps env opts st st'"
proof -
  define h where "h = header_style (style opts)"
  define st1 where "st1 = onDocument (call (Fill (backgroundColor h)))
      (onDocument (call (Rect 0 0 (pageWidth env) (height h))) st)"
  define st2 where "st2 = (case image h of
                  None \<Rightarrow> st1
                | Some img \<Rightarrow>
                    if image_path img \<noteq> []
                    then onDocument (imageCall env (image_path img)
                           (marginLeft (document_style (style opts)))
                           (document_marginTop (document_style (style opts)))
                           (image_width img) (image_height img)) st1
                    else st1)"
  define st3 where "st3 = setCursorY (document_marginTop (document_style (style opts)))
      (setCursorX (Fin (textPosition h)) st2)"
  have "silent st st1"
    by (simp add: silent_def st1_def textCalls_append registrations_append)
  moreover have "silent st1 st2"
    by (simp add: silent_def st2_def imageCall_def textCalls_append registrations_append
        split: option.splits)
  moreover have "silent st2 st3"
    by (simp add: silent_def st3_def)
  ultimately have s3: "steps env opts st st3"
    by (meson silent_step steps_silent)
  obtain st4 where st4: "setText env opts (Str (invoice_name (data_invoice opts)))
                (noOptions\<lparr>fontSize := Some (js ''heading''), fontWeight := Some (js ''bold''),
                   color := regularColor h\<rparr>) st3 = Inr st4"
    using setText_Inr by blast
  have s4: "steps env opts st st4"
    by (rule steps_text [OF s3 st4])
  have line: "\<exists>s'. (case setText env opts (Str (header_label line @ js '':''))
                        (noOptions\<lparr>fontWeight := Some (js ''bold''), color := regularColor h,
                           marginTop := Some 4\<rparr>) s of
                   Inl e \<Rightarrow> Inl e
                 | Inr s1 \<Rightarrow>
                     forEach (\<lambda>v s2. setText env opts v
                         (noOptions\<lparr>colorCode := Some (js ''secondary''),
                            color := header_secondaryColor h, marginTop := Some 4\<rparr>) s2)
                       [header_value line] s1) = Inr s' \<and> steps env opts s s'" for line s
  proof -
    obtain s1 where s1: "setText env opts (Str (header_label line @ js '':''))
                        (noOptions\<lparr>fontWeight := Some (js ''bold''), color := regularColor h,
                           marginTop := Some 4\<rparr>) s = Inr s1"
      using setText_Inr by blast
    obtain s2 where s2: "forEach (\<lambda>v s2. setText env opts v
                         (noOptions\<lparr>colorCode := Some (js ''secondary''),
                            color := header_secondaryColor h, marginTop := Some 4\<rparr>) s2)
                       [header_value line] s1 = Inr s2" "steps env opts s1 s2"
      using forEach_steps [of "\<lambda>v s2. setText env opts v
                         (noOptions\<lparr>colorCode := Some (js ''secondary''),
                            color := header_secondaryColor h, marginTop := Some 4\<rparr>) s2" env opts
                         "[header_value line]" s1, OF setText_steps]
      by blast
    show ?thesis
      unfolding s1 using s2 text_step [OF s1] by (auto intro: steps_trans)
  qed
  obtain st5 where st5: "forEach (\<lambda>line s.
                 case setText env opts (Str (header_label line @ js '':''))
                        (noOptions\<lparr>fontWeight := Some (js ''bold''), color := regularColor h,
                           marginTop := Some 4\<rparr>) s of
                   Inl e \<Rightarrow> Inl e
                 | Inr s1 \<Rightarrow>
                     forEach (\<lambda>v s2. setText env opts v
                         (noOptions\<lparr>colorCode := Some (js ''secondary''),
                            color := header_secondaryColor h, marginTop := Some 4\<rparr>) s2)
                       [header_value line] s1)
               (invoice_header (data_invoice opts)) st4 = Inr st5" "steps env opts st4 st5"
    using forEach_steps [where f = "\<lambda>line s.
                 case setText env opts (Str (header_label line @ js '':''))
                        (noOptions\<lparr>fontWeight := Some (js ''bold''), color := regularColor h,
                           marginTop := Some 4\<rparr>) s of
                   Inl e \<Rightarrow> Inl e
                 | Inr s1 \<Rightarrow>
                     forEach (\<lambda>v s2. setText env opts v
                         (noOptions\<lparr>colorCode := Some (js ''secondary''),
                            color := header_secondaryColor h, marginTop := Some 4\<rparr>) s2)
                       [header_value line] s1" and env = env and opts = opts
                  and xs = "invoice_header (data_invoice opts)" and s = st4, OF line]
    by blast
  have "generateHeader env opts st = Inr st5"
    unfolding generateHeader_def Let_def h_def [symmetric] st1_def [symmetric] st2_def [symmetric]
      st3_def [symmetric] st4
    using st5(1) by simp
  then show ?thesis
    using s4 st5(2) by (auto intro: steps_trans)
qed

lemma generateDetails_cases:
  obtains st' where "generateDetails env opts type st = Inr st'"
    "steps env opts st st'"
    "type = Customer \<longrightarrow> customer_height st' = cursor_y st' \<and> seller_height st' = seller_height st"
    "type = Seller \<longrightarrow> seller_height st' = cursor_y st' \<and> customer_height st' = customer_height st"
proof -
  define st1 where "st1 =
     (if type = Customer
      then setCursorX (Fin (marginLeft (document_style (style opts))))
             (setCursorY (height (header_style (style opts)) + 18) st)
      else setCursorX (Fin (textPosition (header_style (style opts))))
             (setCursorY (height (header_style (style opts)) + 18) st))"
  define vals where "vals = (\<lambda>line :: detail_line. case detail_value line of Many vs \<Rightarrow> vs | One v \<Rightarrow> [v])"
  define drawValue where "drawValue = (\<lambda>(v :: jsstring) (s :: storage). setText env opts (Str v)
                         (noOptions\<lparr>colorCode := Some (js ''secondary''),
                            marginTop := Some 4, maxWidth := Some (Fin 250)\<rparr>) s)"
  define drawLine where "drawLine = (\<lambda>(line :: detail_line) (s :: storage).
                 case setText env opts (Str (detail_label line @ js '':''))
                        (noOptions\<lparr>colorCode := Some (js ''primary''), fontWeight := Some (js ''bold''),
                           marginTop := Some 8, maxWidth := Some (Fin 250)\<rparr>) s of
                   Inl e \<Rightarrow> Inl e
                 | Inr s1 \<Rightarrow> forEach drawValue (vals line) s1)"
  define P where "P = (\<lambda>s :: storage. customer_height s = customer_height st \<and> seller_height s = seller_height st)"
  have s1: "steps env opts st st1"
    by (rule steps_silent [OF silent_step]) (simp_all add: st1_def silent_def)
  have P1: "P st1" by (simp add: P_def st1_def)
  have value_steps: "\<exists>s'. drawValue v s = Inr s' \<and> steps env opts s s'" for v s
    unfolding drawValue_def by (rule setText_steps)
  have value_P: "P s'" if "drawValue v s = Inr s'" "P s" for v s s'
    using setText_heights [OF that(1) [unfolded drawValue_def]] that(2) by (simp add: P_def)
  have line_steps: "\<exists>s'. drawLine line s = Inr s' \<and> steps env opts s s'" for line s
  proof -
    obtain s1 where s1: "setText env opts (Str (detail_label line @ js '':''))
                        (noOptions\<lparr>colorCode := Some (js ''primary''), fontWeight := Some (js ''bold''),
                           marginTop := Some 8, maxWidth := Some (Fin 250)\<rparr>) s = Inr s1"
      using setText_Inr by blast
    obtain s2 where "forEach drawValue (vals line) s1 = Inr s2" "steps env opts s1 s2"
      using forEach_steps [of drawValue env opts "vals line" s1, OF value_steps] by blast
    then show ?thesis
      unfolding drawLine_def s1 using text_step [OF s1] by (auto intro: steps_trans)
  qed
  have line_P: "P s'" if "drawLine line s = Inr s'" "P s" for line s s'
  proof -
    obtain s1 where s1: "setText env opts (Str (detail_label line @ js '':''))
                        (noOptions\<lparr>colorCode := Some (js ''primary''), fontWeight := Some (js ''bold''),
                           marginTop := Some 8, maxWidth := Some (Fin 250)\<rparr>) s = Inr s1"
      using setText_Inr by blast
    have "P s1" using setText_heights [OF s1] that(2) by (simp add: P_def)
    moreover have "forEach drawValue (vals line) s1 = Inr s'"
      using that(1) unfolding drawLine_def s1 by simp
    ultimately show ?thesis
      using forEach_inv [of drawValue P "vals line" s1 s'] value_P by blast
  qed
  obtain st2 where st2: "forEach drawLine (case type of Customer \<Rightarrow> customer (data_invoice opts)
                           | Seller \<Rightarrow> seller (data_invoice opts)) st1 = Inr st2"
      "steps env opts st1 st2"
    using forEach_steps [of drawLine env opts _ st1, OF line_steps] by blast
  have P2: "P st2"
    using forEach_inv [of drawLine P _ st1 st2] line_P st2(1) P1 by blast
  define st' where "st' = (case type of Customer \<Rightarrow> st2\<lparr>customer_height := cursor_y st2\<rparr>
                             | Seller \<Rightarrow> st2\<lparr>seller_height := cursor_y st2\<rparr>)"
  have res: "generateDetails env opts type st = Inr st'"
    using st2(1)
    unfolding generateDetails_def Let_def st'_def st1_def drawLine_def drawValue_def vals_def
    by (simp split: if_splits)
  have "silent st2 st'"
    by (simp add: st'_def split: details_type.splits)
  then have "steps env opts st st'"
    using s1 st2(2) by (meson steps_silent steps_trans)
  moreover have "type = Customer \<longrightarrow> customer_height st' = cursor_y st' \<and> seller_height st' = seller_height st"
    using P2 by (simp add: st'_def P_def)
  moreover have "type = Seller \<longrightarrow> seller_height st' = cursor_y st' \<and> customer_height st' = customer_height st"
    using P2 by (simp add: st'_def P_def)
  ultimately show thesis
    using res by (rule that [rotated])
qed

lemma generateLegal_steps:
  "\<exists>st'. generateLegal env opts st = Inr st' \<and> steps env opts st st'"
proof -
  define drawLegal where "drawLegal = (\<lambda>(l :: legal_line) (s :: storage).
             (let s = setCursorX (Fin (marginLeft (document_style (style opts)) * 2)) s
              in setText env opts (Str (legal_value l))
                   (noOptions\<lparr>fontWeight := weight l,
                      colorCode := Some (case legal_color l of
                                           None \<Rightarrow> js ''primary''
                                         | Some c \<Rightarrow> if c \<noteq> [] then c else js ''primary''),
                      align := Some (js ''center''), marginTop := Some 10\<rparr>) s))"
  have one: "\<exists>s'. drawLegal l s = Inr s' \<and> steps env opts s s'" for l s
  proof -
    obtain s' where s': "setText env opts (Str (legal_value l))
                   (noOptions\<lparr>fontWeight := weight l,
                      colorCode := Some (case legal_color l of
                                           None \<Rightarrow> js ''primary''
                                         | Some c \<Rightarrow> if c \<noteq> [] then c else js ''primary''),
                      align := Some (js ''center''), marginTop := Some 10\<rparr>)
                   (setCursorX (Fin (marginLeft (document_style (style opts)) * 2)) s) = Inr s'"
      using setText_Inr by blast
    have "steps env opts s s'"
      by (rule steps_text [OF silent_step s']) simp
    then show ?thesis
      using s' by (simp add: drawLegal_def)
  qed
  obtain st' where "forEach drawLegal (legal (data_invoice opts)) (st\<lparr>cursor_y := cursor_y st + 60\<rparr>) = Inr st'"
    "steps env opts (st\<lparr>cursor_y := cursor_y st + 60\<rparr>) st'"
    using forEach_steps [of drawLegal env opts _ "st\<lparr>cursor_y := cursor_y st + 60\<rparr>", OF one] by blast
  moreover have "steps env opts st (st\<lparr>cursor_y := cursor_y st + 60\<rparr>)"
    by (rule silent_step) simp
  ultimately show ?thesis
    unfolding generateLegal_def Let_def drawLegal_def by (auto intro: steps_trans)
qed

lemma generateParts_cases:
  obtains st' c y rest where "generateParts env opts st = Inr st'"
    "steps env opts st st'"
    "textCalls (calls (document st')) = textCalls (calls (document st)) @ (c, y) # rest"
    "tc_y c = max (customer_height st) (seller_height st)"
    "tc_text c = valueOrTransliterate env opts (Str (js [CHR 0x0A]))"
proof -
  define drawTotal where "drawTotal = (\<lambda>(t :: total_line) (s :: storage).
                   (let v = total_value t;
                        s = setCursorX (Fin (position (quantity (table_style (style opts))))) s
                    in case setText env opts (Str (total_label t))
                              (noOptions\<lparr>colorCode := Some (js ''primary''),
                                 fontWeight := Some (js ''bold''), marginTop := Some 12,
                                 maxWidth := Some (Fin (column_maxWidth (quantity (table_style (style opts))))),
                                 skipDown := Some True\<rparr>) s of
                         Inl e \<Rightarrow> Inl e
                       | Inr s \<Rightarrow>
                           (let s = setCursorX (Fin (position (total (table_style (style opts))))) s;
                                v = (if total_price t then Str (prettyPrice env opts (total_value t)) else v)
                            in setText env opts (Str (toString env v))
                                 (noOptions\<lparr>colorCode := Some (js ''secondary''),
                                    maxWidth := Some (Fin (column_maxWidth (total (table_style (style opts)))))\<rparr>)
                                 s)))"
  have total_steps: "\<exists>s'. drawTotal t s = Inr s' \<and> steps env opts s s'" for t s
  proof -
    obtain s1 where s1: "setText env opts (Str (total_label t))
                              (noOptions\<lparr>colorCode := Some (js ''primary''),
                                 fontWeight := Some (js ''bold''), marginTop := Some 12,
                                 maxWidth := Some (Fin (column_maxWidth (quantity (table_style (style opts))))),
                                 skipDown := Some True\<rparr>)
                              (setCursorX (Fin (position (quantity (table_style (style opts))))) s) = Inr s1"
      using setText_Inr by blast
    obtain s2 where s2: "setText env opts
         (Str (toString env (if total_price t then Str (prettyPrice env opts (total_value t)) else total_value t)))
         (noOptions\<lparr>colorCode := Some (js ''secondary''),
            maxWidth := Some (Fin (column_maxWidth (total (table_style (style opts)))))\<rparr>)
         (setCursorX (Fin (position (total (table_style (style opts))))) s1) = Inr s2"
      using setText_Inr by blast
    have "steps env opts s s1"
      by (rule steps_text [OF silent_step s1]) simp
    moreover have "steps env opts s1 s2"
      by (rule steps_text [OF silent_step s2]) simp
    ultimately have "steps env opts s s2" by (rule steps_trans)
    moreover have "drawTotal t s = Inr s2"
      unfolding drawTotal_def Let_def s1 using s2 by (simp del: toString.simps)
    ultimately show ?thesis by blast
  qed
  obtain st1 where st1: "setText env opts (Str (js [CHR 0x0A])) noOptions (partsStart st) = Inr st1"
    using setText_Inr by blast
  obtain st2 where st2: "generateTableRow env opts Header (details_header (invoice_details (data_invoice opts))) st1 = Inr st2"
    "steps env opts st1 st2"
    using generateTableRow_steps by blast
  obtain st3 where st3: "forEach (generateTableRow env opts Row) (parts (invoice_details (data_invoice opts))) st2 = Inr st3"
    "steps env opts st2 st3"
    using forEach_steps [of "generateTableRow env opts Row" env opts _ st2, OF generateTableRow_steps] by blast
  obtain st4 where st4: "forEach drawTotal (details_total (invoice_details (data_invoice opts)))
      (st3\<lparr>cursor_y := cursor_y st3 + 50\<rparr>) = Inr st4"
    "steps env opts (st3\<lparr>cursor_y := cursor_y st3 + 50\<rparr>) st4"
    using forEach_steps [of drawTotal env opts _ "st3\<lparr>cursor_y := cursor_y st3 + 50\<rparr>", OF total_steps] by blast
  have res: "generateParts env opts st = Inr st4"
    unfolding generateParts_def drawTotal_def [symmetric] using st1 st2(1) st3(1) st4(1)
    by (simp add: Let_def)
  have s01: "steps env opts st st1"
    by (rule steps_text [OF silent_step st1]) simp
  have "steps env opts st3 (st3\<lparr>cursor_y := cursor_y st3 + 50\<rparr>)"
    by (rule silent_step) simp
  then have s14: "steps env opts st1 st4"
    using st2(2) st3(2) st4(2) by (meson steps_trans)
  then obtain rest where rest: "textCalls (calls (document st4)) = textCalls (calls (document st1)) @ rest"
    using steps_prefix by blast
  have first: "textCalls (calls (document st1)) = textCalls (calls (document st)) @
      [(drawn env opts (Str (js [CHR 0x0A])) noOptions (partsStart st), doc_y (document st1))]"
    using setText_calls [OF st1] by (simp add: partsStart_def)
  have y: "tc_y (drawn env opts (Str (js [CHR 0x0A])) noOptions (partsStart st)) =
      max (customer_height st) (seller_height st)"
    by (simp add: drawn_def partsStart_def noOptions_def orDefault_def)
  have t: "tc_text (drawn env opts (Str (js [CHR 0x0A])) noOptions (partsStart st)) =
      valueOrTransliterate env opts (Str (js [CHR 0x0A]))"
    by (simp add: drawn_def)
  show thesis
    using res steps_trans [OF s01 s14] _ y t
    by (rule that) (simp add: rest first)
qed

lemma generateBuffer_cases:
  obtains st' where "generateBuffer env opts st = Inr st'"
    "steps env opts (loadCustomFonts opts st) st'"
proof -
  obtain st1 where st1: "generateHeader env opts (loadCustomFonts opts st) = Inr st1"
    "steps env opts (loadCustomFonts opts st) st1"
    using generateHeader_steps by blast
  obtain st2 where st2: "generateDetails env opts Customer st1 = Inr st2" "steps env opts st1 st2"
    by (rule generateDetails_cases [of env opts Customer st1]) blast
  obtain st3 where st3: "generateDetails env opts Seller st2 = Inr st3" "steps env opts st2 st3"
    by (rule generateDetails_cases [of env opts Seller st2]) blast
  obtain st4 where st4: "generateParts env opts st3 = Inr st4" "steps env opts st3 st4"
    by (rule generateParts_cases [of env opts st3]) blast
  obtain st5 where st5: "generateLegal env opts st4 = Inr st5" "steps env opts st4 st5"
    using generateLegal_steps by blast
  have "generateBuffer env opts st = Inr st5"
    by (simp add: generateBuffer_def Let_def st1 st2 st3 st4 st5)
  moreover have "steps env opts (loadCustomFonts opts st) st5"
    using st1(2) st2(2) st3(2) st4(2) st5(2) by (meson steps_trans)
  ultimately show thesis by (rule that)
qed

subsection \<open>Texts drawn one after the other\<close>

lemma forEach_setText_fonts:
  "\<exists>st'. forEach (\<lambda>p. setText env opts (fst p) (snd p)) items st = Inr st' \<and>
     (loaded st' \<longleftrightarrow> loaded st \<or> (\<exists>p \<in> set items. usesFallback env opts (fst p))) \<and>
     registrations (calls (document st')) =
       registrations (calls (document st)) @
         (if (\<exists>p \<in> set items. usesFallback env opts (fst p)) \<and> \<not> loaded st
          then [(fallback_name (fallback (fonts (style opts))), fallback_path (fallback (fonts (style opts))))]
          else [])"
proof (induction items arbitrary: st)
  case Nil
  then show ?case by simp
next
  case (Cons p items)
  obtain st1 where st1: "setText env opts (fst p) (snd p) st = Inr st1"
    using setText_Inr by blast
  obtain st' where st': "forEach (\<lambda>p. setText env opts (fst p) (snd p)) items st1 = Inr st'"
    and l: "loaded st' \<longleftrightarrow> loaded st1 \<or> (\<exists>p \<in> set items. usesFallback env opts (fst p))"
    and r: "registrations (calls (document st')) =
       registrations (calls (document st1)) @
         (if (\<exists>p \<in> set items. usesFallback env opts (fst p)) \<and> \<not> loaded st1
          then [(fallback_name (fallback (fonts (style opts))), fallback_path (fallback (fonts (style opts))))]
          else [])"
    using Cons.IH [of st1] by blast
  have "forEach (\<lambda>p. setText env opts (fst p) (snd p)) (p # items) st = Inr st'"
    using st1 st' by simp
  moreover have "loaded st' \<longleftrightarrow> loaded st \<or> (\<exists>q \<in> set (p # items). usesFallback env opts (fst q))"
    using l setText_loaded [OF st1] by auto
  moreover have "registrations (calls (document st')) =
       registrations (calls (document st)) @
         (if (\<exists>q \<in> set (p # items). usesFallback env opts (fst q)) \<and> \<not> loaded st
          then [(fallback_name (fallback (fonts (style opts))), fallback_path (fallback (fonts (style opts))))]
          else [])"
    unfolding r setText_registrations [OF st1] using setText_loaded [OF st1] by auto
  ultimately show ?case by blast
qed

subsection \<open>Cells of a row\<close>

lemma tableColumn_text:
  assumes "tableColumn env opts fw cc n i col (start, w, maxY, st) = Inr (start', w', maxY', st')"
  shows "\<exists>c. textCalls (calls (document st')) = textCalls (calls (document st)) @ [(c, doc_y (document st'))]
           \<and> tc_y c = cursor_y st \<and> tc_text c = cellText env opts col"
    and "cursor_y st' = heldY (cursor_y st) (doc_y (document st'))"
proof -
  obtain st1 where st1: "setText env opts
       (Str (toString env (if price col then Str (prettyPrice env opts (cell_value col)) else cell_value col)))
       (noOptions\<lparr>colorCode := Some cc, maxWidth := Some (columnWidth opts n i w),
          fontWeight := Some fw, skipDown := Some True\<rparr>)
       (setCursorX (columnX opts n i start) st) = Inr st1"
    and res: "tableColumn env opts fw cc n i col (start, w, maxY, st) =
      Inr (numAdd start (numAdd (columnWidth opts n i w) (Fin 10)), columnWidth opts n i w,
           (if doc_y (document st1) \<ge> maxY then doc_y (document st1) else maxY), st1)"
    by (rule tableColumn_eq)
  have eq: "st' = st1" using assms unfolding res by simp
  show "\<exists>c. textCalls (calls (document st')) = textCalls (calls (document st)) @ [(c, doc_y (document st'))]
           \<and> tc_y c = cursor_y st \<and> tc_text c = cellText env opts col"
    using setText_calls [OF st1] unfolding eq
    by (simp add: drawn_def cellText_def noOptions_def orDefault_def del: toString.simps)
  show "cursor_y st' = heldY (cursor_y st) (doc_y (document st'))"
    using setText_cursor_y [OF st1] unfolding eq
    by (simp add: noOptions_def orDefault_def)
qed

lemma row_loop_chain:
  assumes "forEachIndex (tableColumn env opts fw cc n) i cols (start, w, maxY, st) = Inr (start', w', maxY', st')"
  shows "chained (cursor_y st) (newTexts st st') \<and>
         map (\<lambda>p. tc_text (fst p)) (newTexts st st') = map (cellText env opts) cols"
  using assms
proof (induction cols arbitrary: i start w maxY st)
  case Nil
  then show ?case by (simp add: newTexts_def)
next
  case (Cons col cols)
  obtain start1 w1 maxY1 st1 where
    step: "tableColumn env opts fw cc n i col (start, w, maxY, st) = Inr (start1, w1, maxY1, st1)"
    using tableColumn_Inr [of env opts fw cc n i col "(start, w, maxY, st)"] by (metis prod_cases4)
  have rest: "forEachIndex (tableColumn env opts fw cc n) (Suc i) cols (start1, w1, maxY1, st1) =
      Inr (start', w', maxY', st')"
    using Cons.prems(1) step by simp
  obtain c where c: "textCalls (calls (document st1)) = textCalls (calls (document st)) @ [(c, doc_y (document st1))]"
      "tc_y c = cursor_y st" "tc_text c = cellText env opts col"
    using tableColumn_text(1) [OF step] by blast
  have y: "cursor_y st1 = heldY (cursor_y st) (doc_y (document st1))"
    by (rule tableColumn_text(2) [OF step])
  obtain cs where cs: "textCalls (calls (document st')) = textCalls (calls (document st1)) @ cs"
    using row_loop [of env opts fw cc n "Suc i" cols start1 w1 maxY1 st1] rest by auto
  have new: "newTexts st st' = (c, doc_y (document st1)) # newTexts st1 st'"
    by (simp add: newTexts_def cs c)
  show ?case
    using Cons.IH [OF rest] c y by (simp add: new)
qed

lemma generateTableRow_chain:
  assumes "generateTableRow env opts type columns st = Inr st'"
  shows "chained (doc_y (document st) + 17) (newTexts st st') \<and>
         map (\<lambda>p. tc_text (fst p)) (newTexts st st') = map (cellText env opts) columns"
proof -
  obtain start' w' maxY' st1 where
    loop: "forEachIndex (tableColumn env opts (rowWeight type) (rowColor type) (int (length columns)))
             0 columns (Fin (marginLeft (document_style (style opts))), flexWidth opts (length columns),
                        doc_y (document st) + 17, rowStart st) = Inr (start', w', maxY', st1)"
    and cells: "tableRowCells env opts type columns st = Inr (setCursorY maxY' st1)"
    by (rule tableRowCells_cases)
  have "st' = (if type = Header then generateLine env opts (setCursorY maxY' st1) else setCursorY maxY' st1)"
    using assms generateTableRow_alt [OF cells] by simp
  then have "newTexts st st' = newTexts (rowStart st) st1"
    by (simp add: newTexts_def)
  then show ?thesis
    using row_loop_chain [OF loop] by simp
qed

lemma chained_same:
  assumes "chained y0 ps" and "\<forall>p \<in> set ps. heldY y0 (snd p) = y0"
  shows "\<forall>p \<in> set ps. tc_y (fst p) = y0"
  using assms
proof (induction ps arbitrary: y0)
  case Nil
  then show ?case by simp
next
  case (Cons p ps)
  then show ?case by simp
qed

subsection \<open>Doubles\<close>

text \<open>A double is positive only if the number it rounds is.\<close>

lemma pow2_pos: "0 < pow2 e"
  by (simp add: pow2_def)

lemma roundEven_nonpos: "r \<le> 0 \<Longrightarrow> roundEven r \<le> 0"
  by (auto simp add: roundEven_def Let_def not_less)

lemma double_pos:
  assumes "0 < double x"
  shows "0 < x"
proof (rule ccontr)
  assume "\<not> 0 < x"
  then have x: "x \<le> 0" by simp
  define u where "u = pow2 (max (exponent x) (- 1022) - 52)"
  have u: "0 < u" by (simp add: u_def pow2_pos)
  then have "x / u \<le> 0" using x by (simp add: divide_le_0_iff)
  then have "roundEven (x / u) \<le> 0" by (rule roundEven_nonpos)
  then have "of_int (roundEven (x / u)) * u \<le> 0"
    using u by (simp add: mult_le_0_iff)
  then have "double x \<le> 0"
    by (simp add: double_def Let_def u_def)
  with assms show False by simp
qed

text \<open>
  The exponent is the one of the number, so a number that is at least the smallest positive
  double has a positive double; a double differs from the number it rounds by at most half a
  unit in the last place; and the two subtractions of \<open>setText\<close> give \<open>y0\<close> back up to such errors.
\<close>

lemma pow2_powi: "pow2 e = 2 powi e"
  by (cases "0 \<le> e") (simp_all add: pow2_def power_int_def inverse_eq_divide power_one_over)

lemma pow2_add: "pow2 (a + b) = pow2 a * pow2 b"
  by (simp add: pow2_powi power_int_add)

lemma pow2_mono: "a \<le> b \<Longrightarrow> pow2 a \<le> pow2 b"
  by (simp add: pow2_powi power_int_increasing)

lemma bitLength_bounds:
  "0 < n \<Longrightarrow> 2 ^ (bitLength n - 1) \<le> n \<and> n < 2 ^ bitLength n"
proof (induction n rule: bitLength.induct)
  case (1 n)
  show ?case
  proof (cases "n div 2 = 0")
    case True
    then have "n = 1" using 1(2) by auto
    then show ?thesis by (simp add: bitLength.simps [of "Suc 0"] bitLength.simps [of 0])
  next
    case False
    define q where "q = n div 2"
    define m where "m = n mod 2"
    define b where "b = bitLength q"
    have n: "n = 2 * q + m" and m: "m < 2"
      by (simp_all add: q_def m_def)
    have ih: "2 ^ (b - 1) \<le> q" "q < 2 ^ b"
      using 1(1) 1(2) False by (simp_all add: b_def q_def)
    have b: "0 < b" using False by (simp add: b_def q_def bitLength.simps [of "n div 2"])
    have eq: "bitLength n = Suc b" using 1(2) by (simp add: b_def q_def bitLength.simps [of n])
    have "(2::nat) ^ b = 2 * 2 ^ (b - 1)" using b by (cases b) simp_all
    then have lo: "2 ^ b \<le> n" using ih(1) n by linarith
    have "q + 1 \<le> 2 ^ b" using ih(2) by simp
    then have "n < 2 * 2 ^ b" using n m by linarith
    then have "n < 2 ^ Suc b" by simp
    with lo show ?thesis by (simp add: eq)
  qed
qed

lemma exponent_lower:
  assumes "x \<noteq> 0"
  shows "pow2 (exponent x) \<le> \<bar>x\<bar>"
proof (cases "1 \<le> \<bar>x\<bar>")
  case True
  define n where "n = nat \<lfloor>\<bar>x\<bar>\<rfloor>"
  have n: "0 < n" using True by (simp add: n_def)
  have "real n \<le> \<bar>x\<bar>" by (simp add: n_def)
  moreover have "2 ^ (bitLength n - 1) \<le> n" using bitLength_bounds [OF n] by simp
  then have "(2::real) ^ (bitLength n - 1) \<le> real n"
    by (metis of_nat_le_iff of_nat_numeral of_nat_power)
  moreover have "0 < bitLength n" using n by (simp add: bitLength.simps [of n])
  then have "pow2 (exponent x) = 2 ^ (bitLength n - 1)"
    using True by (simp add: exponent_def pow2_def n_def nat_diff_distrib')
  ultimately show ?thesis by linarith
next
  case False
  define r where "r = 1 / \<bar>x\<bar>"
  define k where "k = nat (\<lceil>r\<rceil> - 1)"
  have r: "1 < r" using False assms by (simp add: r_def)
  then have c: "2 \<le> \<lceil>r\<rceil>" by linarith
  then have k: "0 < k" by (simp add: k_def)
  have "r \<le> of_int \<lceil>r\<rceil>" by simp
  also have "\<dots> = real k + 1" using c by (simp add: k_def)
  finally have rk: "r \<le> real k + 1" .
  have "k < 2 ^ bitLength k" using bitLength_bounds [OF k] by simp
  then have "k + 1 \<le> 2 ^ bitLength k" by simp
  then have "real (k + 1) \<le> real (2 ^ bitLength k)" by (rule of_nat_mono)
  then have "real k + 1 \<le> 2 ^ bitLength k" by simp
  with rk have "r \<le> 2 ^ bitLength k" by simp
  then have "1 / 2 ^ bitLength k \<le> \<bar>x\<bar>"
    using assms by (simp add: r_def field_simps)
  moreover have "0 < bitLength k" using k by (simp add: bitLength.simps [of k])
  then have "pow2 (exponent x) = 1 / 2 ^ bitLength k"
    using False by (simp add: exponent_def pow2_def k_def r_def)
  ultimately show ?thesis by linarith
qed

lemma exponent_upper:
  assumes "x \<noteq> 0"
  shows "\<bar>x\<bar> < 2 * pow2 (exponent x)"
proof (cases "1 \<le> \<bar>x\<bar>")
  case True
  define n where "n = nat \<lfloor>\<bar>x\<bar>\<rfloor>"
  have n: "0 < n" using True by (simp add: n_def)
  have b: "0 < bitLength n" using n by (simp add: bitLength.simps [of n])
  have "\<bar>x\<bar> < real n + 1" unfolding n_def by linarith
  moreover have "n + 1 \<le> 2 ^ bitLength n" using bitLength_bounds [OF n] by simp
  then have "real (n + 1) \<le> real (2 ^ bitLength n)" by (rule of_nat_mono)
  then have "real n + 1 \<le> 2 ^ bitLength n" by simp
  moreover have "(2::real) ^ bitLength n = 2 * 2 ^ (bitLength n - 1)"
    using b by (cases "bitLength n") simp_all
  moreover have "pow2 (exponent x) = 2 ^ (bitLength n - 1)"
    using True b by (simp add: exponent_def pow2_def n_def nat_diff_distrib')
  ultimately show ?thesis by linarith
next
  case False
  define r where "r = 1 / \<bar>x\<bar>"
  define k where "k = nat (\<lceil>r\<rceil> - 1)"
  have r: "1 < r" using False assms by (simp add: r_def)
  then have c: "2 \<le> \<lceil>r\<rceil>" by linarith
  then have k: "0 < k" by (simp add: k_def)
  have b: "0 < bitLength k" using k by (simp add: bitLength.simps [of k])
  have "of_int \<lceil>r\<rceil> - 1 < r" by linarith
  moreover have "of_int \<lceil>r\<rceil> - 1 = real k" using c by (simp add: k_def)
  ultimately have kr: "real k < r" by simp
  have "2 ^ (bitLength k - 1) \<le> k" using bitLength_bounds [OF k] by simp
  then have "real (2 ^ (bitLength k - 1)) \<le> real k" by (rule of_nat_mono)
  moreover have "real (2 ^ (bitLength k - 1)) = 2 ^ (bitLength k - 1)" by simp
  ultimately have "2 ^ (bitLength k - 1) < r" using kr by linarith
  then have "\<bar>x\<bar> * 2 ^ (bitLength k - 1) < 1"
    using assms by (simp add: r_def field_simps)
  then have "\<bar>x\<bar> < 1 / 2 ^ (bitLength k - 1)"
    by (simp add: field_simps)
  moreover have "(2::real) ^ bitLength k = 2 * 2 ^ (bitLength k - 1)"
    using b by (cases "bitLength k") simp_all
  then have "2 * (1 / 2 ^ bitLength k) = 1 / (2::real) ^ (bitLength k - 1)"
    by simp
  moreover have "pow2 (exponent x) = 1 / 2 ^ bitLength k"
    using False b by (simp add: exponent_def pow2_def k_def r_def)
  ultimately show ?thesis by linarith
qed

lemma roundEven_ge: "of_int n \<le> r \<Longrightarrow> n \<le> roundEven r"
  by (auto simp add: roundEven_def Let_def le_floor_iff) linarith+

lemma double_positive:
  assumes "pow2 (- 1074) \<le> x"
  shows "0 < double x"
proof -
  have x: "0 < x" using assms pow2_pos [of "- 1074"] by linarith
  define u where "u = pow2 (max (exponent x) (- 1022) - 52)"
  have u: "0 < u" by (simp add: u_def pow2_pos)
  have "u \<le> x"
  proof (cases "- 1022 \<le> exponent x")
    case True
    then have "u = pow2 (exponent x - 52)" by (simp add: u_def max_def)
    also have "\<dots> \<le> pow2 (exponent x)" by (rule pow2_mono) simp
    also have "\<dots> \<le> x" using exponent_lower [of x] x by simp
    finally show ?thesis .
  next
    case False
    then have "u = pow2 (- 1074)" by (simp add: u_def max_def)
    then show ?thesis using assms by simp
  qed
  then have "of_int 1 \<le> x / u" using u by (simp add: field_simps)
  then have "1 \<le> roundEven (x / u)" by (rule roundEven_ge)
  then have "0 < of_int (roundEven (x / u)) * u" using u by simp
  then show ?thesis using x by (simp add: double_def Let_def u_def)
qed

lemma roundEven_error: "\<bar>of_int (roundEven r) - r\<bar> \<le> 1 / 2"
  by (auto simp add: roundEven_def Let_def)

lemma double_error: "\<bar>double x - x\<bar> \<le> pow2 (max (exponent x) (- 1022) - 53)"
proof (cases "x = 0")
  case True
  then show ?thesis using pow2_pos [of "max (exponent x) (- 1022) - 53"] by (simp add: double_def)
next
  case False
  define u where "u = pow2 (max (exponent x) (- 1022) - 52)"
  have u: "0 < u" by (simp add: u_def pow2_pos)
  have "double x - x = (of_int (roundEven (x / u)) - x / u) * u"
    using False u by (simp add: double_def Let_def u_def field_simps)
  then have "\<bar>double x - x\<bar> = \<bar>of_int (roundEven (x / u)) - x / u\<bar> * u"
    using u by (simp add: abs_mult)
  also have "\<dots> \<le> 1 / 2 * u"
    using roundEven_error [of "x / u"] u by (intro mult_right_mono) simp_all
  also have "\<dots> = pow2 (max (exponent x) (- 1022) - 53)"
    using pow2_add [of "max (exponent x) (- 1022) - 52" "- 1"]
    by (simp add: u_def pow2_def [of "- 1"])
  finally show ?thesis .
qed

lemma double_relative: "\<bar>double x - x\<bar> \<le> \<bar>x\<bar> / 2 ^ 53 + pow2 (- 1075)"
proof (cases "x = 0 \<or> exponent x < - 1022")
  case True
  then have "\<bar>double x - x\<bar> \<le> pow2 (- 1075)"
  proof
    assume "x = 0"
    then show ?thesis using pow2_pos [of "- 1075"] by (simp add: double_def)
  next
    assume "exponent x < - 1022"
    then show ?thesis using double_error [of x] by (simp add: max_def)
  qed
  moreover have "0 \<le> \<bar>x\<bar> / 2 ^ 53" by simp
  ultimately show ?thesis by linarith
next
  case False
  then have x: "x \<noteq> 0" and e: "max (exponent x) (- 1022) = exponent x" by simp_all
  have "pow2 (exponent x - 53) = pow2 (exponent x) * pow2 (- 53)"
    using pow2_add [of "exponent x" "- 53"] by simp
  also have "\<dots> \<le> \<bar>x\<bar> * pow2 (- 53)"
    using exponent_lower [OF x] pow2_pos [of "- 53"] by (intro mult_right_mono) simp_all
  also have "\<dots> = \<bar>x\<bar> / 2 ^ 53" by (simp add: pow2_def)
  finally have "\<bar>double x - x\<bar> \<le> \<bar>x\<bar> / 2 ^ 53"
    using double_error [of x] unfolding e by linarith
  moreover have "0 < pow2 (- 1075)" by (rule pow2_pos)
  ultimately show ?thesis by linarith
qed

lemma restore_error:
  fixes y0 yNew :: real
  defines "d \<equiv> doubleMinus yNew y0"
  shows "\<bar>doubleMinus yNew d - y0\<bar> \<le> (\<bar>yNew - y0\<bar> + \<bar>y0\<bar>) / 2 ^ 52 + pow2 (- 1073)"
proof -
  define t where "t = pow2 (- 1075)"
  define a where "a = \<bar>yNew - y0\<bar> / 2 ^ 53"
  define b where "b = \<bar>y0\<bar> / 2 ^ 53"
  define e1 where "e1 = \<bar>d - (yNew - y0)\<bar>"
  define e2 where "e2 = \<bar>doubleMinus yNew d - (yNew - d)\<bar>"
  have t: "0 < t" by (simp add: t_def pow2_pos)
  have 1: "e1 \<le> a + t"
    unfolding e1_def d_def doubleMinus_def a_def t_def by (rule double_relative)
  have "e2 \<le> \<bar>yNew - d\<bar> / 2 ^ 53 + t"
    unfolding e2_def doubleMinus_def t_def by (rule double_relative)
  moreover have "\<bar>yNew - d\<bar> \<le> \<bar>y0\<bar> + e1"
    unfolding e1_def by linarith
  then have "\<bar>yNew - d\<bar> / 2 ^ 53 \<le> (\<bar>y0\<bar> + e1) / 2 ^ 53"
    by (simp add: divide_right_mono)
  moreover have "(\<bar>y0\<bar> + e1) / 2 ^ 53 = b + e1 / 2 ^ 53"
    by (simp add: b_def add_divide_distrib)
  moreover have "0 \<le> e1" by (simp add: e1_def)
  then have "e1 / 2 ^ 53 \<le> e1" by (simp add: field_simps)
  ultimately have 2: "e2 \<le> b + e1 + t" by linarith
  have "\<bar>doubleMinus yNew d - y0\<bar> \<le> e1 + e2"
    unfolding e1_def e2_def by linarith
  also have "\<dots> \<le> 2 * a + b + 3 * t"
    using 1 2 by linarith
  also have "\<dots> \<le> 2 * a + 2 * b + 4 * t"
  proof -
    have "0 \<le> b" by (simp add: b_def)
    then show ?thesis using t by linarith
  qed
  also have "2 * a + 2 * b = (\<bar>yNew - y0\<bar> + \<bar>y0\<bar>) / 2 ^ 52"
    by (simp add: a_def b_def add_divide_distrib)
  also have "4 * t = pow2 (- 1073)"
    using pow2_add [of "- 1075" 2] by (simp add: t_def pow2_def [of 2])
  finally show ?thesis .
qed

subsection \<open>Evaluation of doubles\<close>

lemma bitLength_numeral [simp]:
  "bitLength 0 = 0"
  "bitLength (Suc 0) = Suc 0"
  "bitLength 1 = Suc 0"
  "bitLength (numeral k) = Suc (bitLength (numeral k div 2))"
  by (simp_all add: bitLength.simps [of 0] bitLength.simps [of "Suc 0"] bitLength.simps [of "numeral k"])

lemmas double_eval = doubleMinus_def double_def exponent_def pow2_def roundEven_def Let_def

lemma heldY_sample:
  "heldY 89 113 = 89" "heldY 89 101 = 89" "heldY 312 324 = 312" "heldY 312 312 = 601 / 2"
  by (simp_all add: heldY_def double_eval)

lemma heldY_paged:
  "heldY 777 96 = 169 / 2" "heldY (169 / 2) (193 / 2) = 169 / 2"
  by (simp_all add: heldY_def double_eval)

subsection \<open>The sample row\<close>

lemma sampleRow_cells:
  "map (cellText (sampleEnvironment\<lparr>textY := f\<rparr>) sampleOptions) sampleRow =
     [Str (js ''Nike Air Max, limited edition, size 42, colour red''), Str (js ''1''), Str (js ''53 EUR'')]"
  by (simp add: sampleRow_def cellText_def valueOrTransliterate_def prettyPrice_def test_def
      sampleOptions_def defaultOptions_def sampleEnvironment_def js_def digits_small)

lemma sampleLines_eval:
  assumes "tc_text c = Str s" and "s \<noteq> []" and "tc_width c = Some (Fin w)" and "0 < w"
  shows "sampleLines c = nat \<lceil>6 * real (length s) / w\<rceil>"
  using assms by (simp add: sampleLines_def)

lemma sampleRow_layout:
  assumes "generateTableRow (sampleEnvironment\<lparr>textY := f\<rparr>) sampleOptions type sampleRow st = Inr st'"
  obtains a b c where "newTexts st st' = [a, b, c]"
    and "sampleLines (fst a) = 2" "sampleLines (fst b) = 1" "sampleLines (fst c) = 1"
    and "tc_y (fst a) = doc_y (document st) + 17"
    and "tc_y (fst b) = heldY (tc_y (fst a)) (snd a)"
    and "tc_y (fst c) = heldY (tc_y (fst b)) (snd b)"
    and "\<exists>d. snd a = f d (fst a)" "\<exists>d. snd b = f d (fst b)" "\<exists>d. snd c = f d (fst c)"
proof -
  define env where "env = sampleEnvironment\<lparr>textY := f\<rparr>"
  have len: "length sampleRow = 3" by (simp add: sampleRow_def)
  obtain st2 cs where row: "generateTableRow env sampleOptions type sampleRow st = Inr st2"
    and cs: "newTexts st st2 = cs" "length cs = length sampleRow"
    and reported: "\<forall>p \<in> set cs. \<exists>d. snd p = textY env d (fst p)"
    and place: "\<forall>j < length sampleRow.
        tc_x (fst (cs ! j)) = columnX sampleOptions (int (length sampleRow)) j
           ((nextStart (flexWidth sampleOptions (length sampleRow)) ^^ j)
              (Fin (marginLeft (document_style (style sampleOptions))))) \<and>
        tc_width (fst (cs ! j)) =
          Some (columnWidth sampleOptions (int (length sampleRow)) j (flexWidth sampleOptions (length sampleRow)))"
    by (rule generateTableRow_cases [of env sampleOptions type sampleRow st]) blast
  have st2: "st2 = st'" using row assms by (simp add: env_def)
  obtain a b c where abc: "cs = [a, b, c]"
    using cs(2) len by (auto simp add: length_Suc_conv numeral_3_eq_3)
  have chain: "chained (doc_y (document st) + 17) cs"
    and texts: "map (\<lambda>p. tc_text (fst p)) cs = map (cellText env sampleOptions) sampleRow"
    using generateTableRow_chain [OF row] cs(1) by simp_all
  have fw: "flexWidth sampleOptions 3 = Fin 270"
    by (simp add: flexWidth_def jsDivide_def sampleOptions_layout)
  have wa: "tc_width (fst a) = Some (Fin 270)"
    using place [rule_format, of 0] by (simp add: abc len columnWidth_def fw)
  have wb: "tc_width (fst b) = Some (Fin 140)"
    using place [rule_format, of 1] by (simp add: abc len columnWidth_def sampleOptions_layout)
  have wc: "tc_width (fst c) = Some (Fin 80)"
    using place [rule_format, of 2] by (simp add: abc len columnWidth_def sampleOptions_layout)
  have ta: "tc_text (fst a) = Str (js ''Nike Air Max, limited edition, size 42, colour red'')"
    and tb: "tc_text (fst b) = Str (js ''1'')"
    and tc: "tc_text (fst c) = Str (js ''53 EUR'')"
    using texts unfolding env_def sampleRow_cells by (simp_all add: abc)
  have la: "sampleLines (fst a) = 2"
    by (simp add: sampleLines_eval [OF ta _ wa] js_def)
  have lb: "sampleLines (fst b) = 1"
    by (simp add: sampleLines_eval [OF tb _ wb] js_def)
  have lc: "sampleLines (fst c) = 1"
    by (simp add: sampleLines_eval [OF tc _ wc] js_def)
  have f: "textY env = f" by (simp add: env_def)
  show thesis
  proof (rule that [of a b c])
    show "newTexts st st' = [a, b, c]" using cs(1) st2 abc by simp
    show "sampleLines (fst a) = 2" "sampleLines (fst b) = 1" "sampleLines (fst c) = 1"
      by (rule la lb lc)+
    show "tc_y (fst a) = doc_y (document st) + 17" using chain by (simp add: abc)
    show "tc_y (fst b) = heldY (tc_y (fst a)) (snd a)" using chain by (simp add: abc)
    show "tc_y (fst c) = heldY (tc_y (fst b)) (snd b)" using chain by (simp add: abc)
    show "\<exists>d. snd a = f d (fst a)" "\<exists>d. snd b = f d (fst b)" "\<exists>d. snd c = f d (fst c)"
      using reported unfolding f by (simp_all add: abc)
  qed
qed

lemma sampleEnvironment_textY:
  "sampleEnvironment = sampleEnvironment\<lparr>textY := \<lambda>d c. tc_y c + 12 * real (sampleLines c)\<rparr>"
  by (simp add: sampleEnvironment_def)

lemma sampleRow_drawn:
  assumes "generateTableRow sampleEnvironment sampleOptions type sampleRow st = Inr st'"
    and "doc_y (document st) = 72"
  shows "map (\<lambda>p. (tc_y (fst p), snd p)) (newTexts st st') = [(89, 113), (89, 101), (89, 101)]"
proof -
  have row: "generateTableRow (sampleEnvironment\<lparr>textY := \<lambda>d c. tc_y c + 12 * real (sampleLines c)\<rparr>)
      sampleOptions type sampleRow st = Inr st'"
    using assms(1) sampleEnvironment_textY by simp
  obtain a b c where abc: "newTexts st st' = [a, b, c]"
    and l: "sampleLines (fst a) = 2" "sampleLines (fst b) = 1" "sampleLines (fst c) = 1"
    and ya: "tc_y (fst a) = doc_y (document st) + 17"
    and yb: "tc_y (fst b) = heldY (tc_y (fst a)) (snd a)"
    and yc: "tc_y (fst c) = heldY (tc_y (fst b)) (snd b)"
    and r: "\<exists>d. snd a = tc_y (fst a) + 12 * real (sampleLines (fst a))"
      "\<exists>d. snd b = tc_y (fst b) + 12 * real (sampleLines (fst b))"
      "\<exists>d. snd c = tc_y (fst c) + 12 * real (sampleLines (fst c))"
    by (rule sampleRow_layout [OF row]) blast
  have a: "tc_y (fst a) = 89" "snd a = 113" using ya r(1) l(1) assms(2) by simp_all
  have b: "tc_y (fst b) = 89" "snd b = 101" using yb r(2) l(2) a by (simp_all add: heldY_sample)
  have c: "tc_y (fst c) = 89" "snd c = 101" using yc r(3) l(3) b by (simp_all add: heldY_sample)
  show ?thesis by (simp add: abc a b c)
qed

lemma pagedRow_drawn:
  assumes "generateTableRow pagingEnvironment sampleOptions type sampleRow st = Inr st'"
    and "doc_y (document st) = 760"
  shows "map (\<lambda>p. (tc_y (fst p), snd p)) (newTexts st st') = [(777, 96), (84.5, 96.5), (84.5, 96.5)]"
proof -
  define f where "f = (\<lambda>(d :: document) c. if 770 < tc_y c + 12 * real (sampleLines c)
      then 72 + 12 * real (sampleLines c) else tc_y c + 12 * real (sampleLines c))"
  have row: "generateTableRow (sampleEnvironment\<lparr>textY := f\<rparr>) sampleOptions type sampleRow st = Inr st'"
    using assms(1) by (simp add: pagingEnvironment_def f_def)
  obtain a b c where abc: "newTexts st st' = [a, b, c]"
    and l: "sampleLines (fst a) = 2" "sampleLines (fst b) = 1" "sampleLines (fst c) = 1"
    and ya: "tc_y (fst a) = doc_y (document st) + 17"
    and yb: "tc_y (fst b) = heldY (tc_y (fst a)) (snd a)"
    and yc: "tc_y (fst c) = heldY (tc_y (fst b)) (snd b)"
    and r: "\<exists>d. snd a = f d (fst a)" "\<exists>d. snd b = f d (fst b)" "\<exists>d. snd c = f d (fst c)"
    by (rule sampleRow_layout [OF row])
  have a: "tc_y (fst a) = 777" "snd a = 96" using ya r(1) l(1) assms(2) by (simp_all add: f_def)
  have b: "tc_y (fst b) = 84.5" "snd b = 96.5" using yb r(2) l(2) a by (simp_all add: f_def heldY_paged)
  have c: "tc_y (fst c) = 84.5" "snd c = 96.5" using yc r(3) l(3) b by (simp_all add: f_def heldY_paged)
  show ?thesis by (simp add: abc a b c)
qed

subsection \<open>Texts of a details section\<close>

lemma steps_reported:
  assumes "steps env opts st st'"
  shows "\<forall>p \<in> set (newTexts st st'). \<exists>d. snd p = textY env d (fst p)"
  using assms
proof (induction rule: steps.induct)
  case (steps_refl st)
  then show ?case by (simp add: newTexts_def)
next
  case (steps_silent st st1 st2)
  then show ?case by (simp add: silent_def newTexts_def)
next
  case (steps_text st st1 tx options st2)
  obtain cs where cs: "textCalls (calls (document st1)) = textCalls (calls (document st)) @ cs"
    using steps_prefix [OF steps_text.hyps(1)] by blast
  have "newTexts st st2 = newTexts st st1 @ [(drawn env opts tx options st1, doc_y (document st2))]"
    using setText_calls [OF steps_text.hyps(2)] cs by (simp add: newTexts_def)
  then show ?case
    using steps_text.IH setText_reported [OF steps_text.hyps(2)] by auto
qed

lemma stacked_append:
  assumes "stacked x w y items ps" and "stacked x w (last (y # map snd ps)) items' ps'"
  shows "stacked x w y (items @ items') (ps @ ps')"
  using assms
proof (induction items arbitrary: y ps)
  case Nil
  then show ?case by simp
next
  case (Cons item items)
  then obtain p qs where ps: "ps = p # qs" by (cases ps) simp_all
  have "last (y # map snd ps) = last (snd p # map snd qs)" by (simp add: ps)
  then show ?case
    using Cons.prems Cons.IH [of "snd p" qs] by (simp add: ps)
qed

lemma stacked_Cons:
  "stacked x w y (item # items) ps \<longleftrightarrow>
     (\<exists>p qs. ps = p # qs \<and>
        fst p = \<lparr>tc_text = fst item, tc_x = x, tc_y = y + snd item, tc_align = js ''left'',
                  tc_width = Some w\<rparr> \<and>
        stacked x w (snd p) items qs)"
  by (cases ps) simp_all

lemma draws_refl: "draws w [] s s"
  by (simp add: draws_def newTexts_def)

lemma draws_trans:
  assumes "draws w items s s1" and "draws w items' s1 s2"
  shows "draws w (items @ items') s s2"
proof -
  have t1: "textCalls (calls (document s1)) = textCalls (calls (document s)) @ newTexts s s1"
    and t2: "textCalls (calls (document s2)) = textCalls (calls (document s1)) @ newTexts s1 s2"
    using assms by (simp_all add: draws_def)
  have t: "textCalls (calls (document s2)) = textCalls (calls (document s)) @ (newTexts s s1 @ newTexts s1 s2)"
    using t1 t2 by (metis append_assoc)
  then have new: "newTexts s s2 = newTexts s s1 @ newTexts s1 s2"
    by (rule newTexts_append)
  have "last (cursor_y s # map snd (newTexts s s1 @ newTexts s1 s2)) =
      last (last (cursor_y s # map snd (newTexts s s1)) # map snd (newTexts s1 s2))"
    by (simp add: last_append)
  moreover have "stacked (cursor_x s) w (cursor_y s) (items @ items') (newTexts s s1 @ newTexts s1 s2)"
    using assms by (intro stacked_append) (simp_all add: draws_def)
  ultimately show ?thesis
    using assms t unfolding draws_def new by simp
qed

lemma draws_setText:
  assumes "setText env opts tx options s = Inr s'"
    and "skipDown options = None" and "align options = None"
    and "marginTop options = Some m" and "maxWidth options = Some w"
  shows "draws w [(valueOrTransliterate env opts tx, m)] s s'"
proof -
  have new: "newTexts s s' = [(drawn env opts tx options s, doc_y (document s'))]"
    by (rule newTexts_append [OF setText_calls [OF assms(1)]])
  show ?thesis
    using setText_calls [OF assms(1)] setText_cursor_x [OF assms(1)] setText_cursor_y [OF assms(1)]
      setText_heights [OF assms(1)] assms(2-)
    by (simp add: draws_def new drawn_def orDefault_def)
qed

lemma forEach_draws:
  assumes "\<And>x s. \<exists>s'. f x s = Inr s' \<and> draws w (g x) s s'"
  shows "\<exists>s'. forEach f xs s = Inr s' \<and> draws w (concat (map g xs)) s s'"
proof (induction xs arbitrary: s)
  case Nil
  then show ?case by (simp add: draws_refl)
next
  case (Cons x xs)
  obtain s1 where s1: "f x s = Inr s1" "draws w (g x) s s1"
    using assms by blast
  obtain s2 where s2: "forEach f xs s1 = Inr s2" "draws w (concat (map g xs)) s1 s2"
    using Cons.IH by blast
  show ?case
    using s1 s2 draws_trans [OF s1(2) s2(2)] by simp
qed

lemma generateDetails_drawn:
  obtains st' where "generateDetails env opts type st = Inr st'"
    "stacked (Fin (if type = Customer then marginLeft (document_style (style opts))
                   else textPosition (header_style (style opts)))) (Fin 250)
       (height (header_style (style opts)) + 18)
       (detailItems env opts (case type of Customer \<Rightarrow> customer (data_invoice opts)
                                          | Seller \<Rightarrow> seller (data_invoice opts)))
       (newTexts st st')"
    "cursor_y st' = last ((height (header_style (style opts)) + 18) # map snd (newTexts st st'))"
proof -
  define st1 where "st1 =
     (if type = Customer
      then setCursorX (Fin (marginLeft (document_style (style opts))))
             (setCursorY (height (header_style (style opts)) + 18) st)
      else setCursorX (Fin (textPosition (header_style (style opts))))
             (setCursorY (height (header_style (style opts)) + 18) st))"
  define drawValue where "drawValue = (\<lambda>(v :: jsstring) (s :: storage). setText env opts (Str v)
                         (noOptions\<lparr>colorCode := Some (js ''secondary''),
                            marginTop := Some 4, maxWidth := Some (Fin 250)\<rparr>) s)"
  define drawLine where "drawLine = (\<lambda>(line :: detail_line) (s :: storage).
                 case setText env opts (Str (detail_label line @ js '':''))
                        (noOptions\<lparr>colorCode := Some (js ''primary''), fontWeight := Some (js ''bold''),
                           marginTop := Some 8, maxWidth := Some (Fin 250)\<rparr>) s of
                   Inl e \<Rightarrow> Inl e
                 | Inr s1 \<Rightarrow> forEach drawValue (detailValues line) s1)"
  define item where "item = (\<lambda>line :: detail_line.
      (valueOrTransliterate env opts (Str (detail_label line @ js '':'')), 8 :: real) #
      map (\<lambda>v. (valueOrTransliterate env opts (Str v), 4)) (detailValues line))"
  define lines where "lines = (case type of Customer \<Rightarrow> customer (data_invoice opts)
                                           | Seller \<Rightarrow> seller (data_invoice opts))"
  have value_draws: "\<exists>s'. drawValue v s = Inr s' \<and> draws (Fin 250) [(valueOrTransliterate env opts (Str v), 4)] s s'"
    for v s
  proof -
    obtain s' where s': "drawValue v s = Inr s'"
      unfolding drawValue_def using setText_Inr by blast
    have "draws (Fin 250) [(valueOrTransliterate env opts (Str v), 4)] s s'"
      by (rule draws_setText [OF s' [unfolded drawValue_def]]) (simp_all add: noOptions_def)
    with s' show ?thesis by blast
  qed
  have line_draws: "\<exists>s'. drawLine line s = Inr s' \<and> draws (Fin 250) (item line) s s'" for line s
  proof -
    obtain s1 where s1: "setText env opts (Str (detail_label line @ js '':''))
                        (noOptions\<lparr>colorCode := Some (js ''primary''), fontWeight := Some (js ''bold''),
                           marginTop := Some 8, maxWidth := Some (Fin 250)\<rparr>) s = Inr s1"
      using setText_Inr by blast
    have d1: "draws (Fin 250) [(valueOrTransliterate env opts (Str (detail_label line @ js '':'')), 8)] s s1"
      by (rule draws_setText [OF s1]) (simp_all add: noOptions_def)
    obtain s2 where s2: "forEach drawValue (detailValues line) s1 = Inr s2"
      and d2: "draws (Fin 250)
         (concat (map (\<lambda>v. [(valueOrTransliterate env opts (Str v), 4 :: real)]) (detailValues line))) s1 s2"
      using forEach_draws [of drawValue "Fin 250" "\<lambda>v. [(valueOrTransliterate env opts (Str v), 4)]"
          "detailValues line" s1, OF value_draws] by blast
    have c: "concat (map (\<lambda>v. [(valueOrTransliterate env opts (Str v), 4 :: real)]) vs) =
        map (\<lambda>v. (valueOrTransliterate env opts (Str v), 4)) vs" for vs
      by (induction vs) simp_all
    have "draws (Fin 250) (item line) s s2"
      using draws_trans [OF d1 d2] by (simp add: item_def c)
    moreover have "drawLine line s = Inr s2"
      unfolding drawLine_def s1 using s2 by simp
    ultimately show ?thesis by blast
  qed
  obtain st2 where st2: "forEach drawLine lines st1 = Inr st2"
    and d: "draws (Fin 250) (concat (map item lines)) st1 st2"
    using forEach_draws [of drawLine "Fin 250" item lines st1, OF line_draws] by blast
  define st' where "st' = (case type of Customer \<Rightarrow> st2\<lparr>customer_height := cursor_y st2\<rparr>
                             | Seller \<Rightarrow> st2\<lparr>seller_height := cursor_y st2\<rparr>)"
  have res: "generateDetails env opts type st = Inr st'"
    using st2
    unfolding generateDetails_def Let_def st'_def st1_def drawLine_def drawValue_def detailValues_def lines_def
    by (simp split: if_splits)
  have items: "concat (map item lines) = detailItems env opts lines"
    by (simp add: detailItems_def item_def)
  have x: "cursor_x st1 = Fin (if type = Customer then marginLeft (document_style (style opts))
                   else textPosition (header_style (style opts)))"
    and y: "cursor_y st1 = height (header_style (style opts)) + 18"
    by (simp_all add: st1_def)
  have new: "newTexts st st' = newTexts st1 st2"
    by (simp add: newTexts_def st'_def st1_def split: details_type.splits)
  have cy: "cursor_y st' = cursor_y st2"
    by (simp add: st'_def split: details_type.splits)
  have stk: "stacked (cursor_x st1) (Fin 250) (cursor_y st1) (detailItems env opts lines) (newTexts st1 st2)"
    and lst: "cursor_y st2 = last (cursor_y st1 # map snd (newTexts st1 st2))"
    using d by (simp_all add: draws_def items)
  show thesis
  proof (rule that [OF res])
    show "stacked (Fin (if type = Customer then marginLeft (document_style (style opts))
                   else textPosition (header_style (style opts)))) (Fin 250)
       (height (header_style (style opts)) + 18)
       (detailItems env opts (case type of Customer \<Rightarrow> customer (data_invoice opts)
                                          | Seller \<Rightarrow> seller (data_invoice opts)))
       (newTexts st st')"
      using stk by (simp add: x y new lines_def)
    show "cursor_y st' = last ((height (header_style (style opts)) + 18) # map snd (newTexts st st'))"
      using lst by (simp add: y new cy)
  qed
qed

lemma sample_stacked:
  assumes "stacked x (Fin 250) y ((Str s, m) # items) ps"
    and "\<forall>p \<in> set ps. \<exists>d. snd p = textY sampleEnvironment d (fst p)"
    and "s \<noteq> []" and "length s \<le> 41"
  obtains qs where
    "ps = (\<lparr>tc_text = Str s, tc_x = x, tc_y = y + m, tc_align = js ''left'', tc_width = Some (Fin 250)\<rparr>,
           y + m + 12) # qs"
    "stacked x (Fin 250) (y + m + 12) items qs"
    "\<forall>p \<in> set qs. \<exists>d. snd p = textY sampleEnvironment d (fst p)"
proof -
  obtain p qs where ps: "ps = p # qs"
    and p: "fst p = \<lparr>tc_text = Str s, tc_x = x, tc_y = y + m, tc_align = js ''left'', tc_width = Some (Fin 250)\<rparr>"
    and rest: "stacked x (Fin 250) (snd p) items qs"
    using assms(1) unfolding stacked_Cons by auto
  have "0 < 6 * real (length s) / 250" "6 * real (length s) / 250 \<le> 1"
    using assms(3,4) by simp_all
  then have "\<lceil>6 * real (length s) / 250\<rceil> = 1"
    by (intro ceiling_unique) simp_all
  then have "sampleLines (fst p) = 1"
    using assms(3) by (simp add: sampleLines_def p)
  moreover have "snd p = tc_y (fst p) + 12 * real (sampleLines (fst p))"
    using assms(2) by (simp add: ps sampleEnvironment_def)
  ultimately have y: "snd p = y + m + 12" by (simp add: p)
  have "p = (fst p, snd p)" by simp
  then have "ps = (\<lparr>tc_text = Str s, tc_x = x, tc_y = y + m, tc_align = js ''left'', tc_width = Some (Fin 250)\<rparr>,
           y + m + 12) # qs"
    unfolding ps p y by simp
  then show thesis
    using rest assms(2) unfolding y by (intro that [of qs]) (simp_all add: ps)
qed

lemma sampleInvoice_items:
  "detailItems sampleEnvironment sampleInvoice (customer (data_invoice sampleInvoice)) =
     [(Str (js ''Bill To:''), 8), (Str (js ''Ada Lovelace''), 4), (Str (js ''12 St James Square''), 4),
      (Str (js ''London''), 4)]"
  "detailItems sampleEnvironment sampleInvoice (seller (data_invoice sampleInvoice)) =
     [(Str (js ''Bill From:''), 8), (Str (js ''Acme''), 4)]"
  by (simp_all add: detailItems_def detailValues_def sampleInvoice_def sampleOptions_def defaultOptions_def
      valueOrTransliterate_def test_def js_def)

lemma sampleInvoice_layout:
  "marginLeft (document_style (style sampleInvoice)) = 30"
  "textPosition (header_style (style sampleInvoice)) = 330"
  "height (header_style (style sampleInvoice)) = 150"
  by (simp_all add: sampleInvoice_def sampleOptions_def defaultOptions_def)

section \<open>Properties\<close>

subsection \<open>Font selection\<close>

text \<open>
  C1. For the weights normal and bold and every text string, \<open>getFontOrFallback\<close> returns
  the fallback font's name when the fallback is enabled, some character of the text matches
  the normal font's range and none matches the fallback font's range; in every other case
  it returns the name configured for the weight. So a text with no character matching the
  normal font's range gets the name of the weight, and where that name differs from the
  fallback's, the fallback name is returned in the first case only.
\<close>

theorem getFontOrFallback_selection:
  fixes opts :: options and s :: jsstring
  defines "N \<equiv> normal (fonts (style opts))"
    and "B \<equiv> bold (fonts (style opts))"
    and "F \<equiv> fallback (fonts (style opts))"
  defines "selected \<equiv> enabled F \<and> (\<exists>c \<in> set s. normal_range N c) \<and> \<not> (\<exists>c \<in> set s. fallback_range F c)"
  assumes "type = js ''normal'' \<or> type = js ''bold''"
  defines "configured \<equiv> (if type = js ''bold'' then bold_name B else normal_name N)"
  shows "(\<exists>st'. getFontOrFallback env opts (Some type) (Str s) st =
            Inr (if selected then fallback_name F else configured, st')) \<and>
         ((\<forall>c \<in> set s. \<not> normal_range N c) \<longrightarrow>
            (\<exists>st'. getFontOrFallback env opts (Some type) (Str s) st = Inr (configured, st'))) \<and>
         (configured \<noteq> fallback_name F \<longrightarrow>
            ((\<exists>st'. getFontOrFallback env opts (Some type) (Str s) st = Inr (fallback_name F, st'))
               \<longleftrightarrow> selected))"
proof -
  have u: "usesFallback env opts (Str s) \<longleftrightarrow> selected"
    by (auto simp add: usesFallback_def selected_def N_def F_def list_ex_iff)
  have w: "weightName opts (Some type) = configured"
    using assms(5) by (auto simp add: weightName_def configured_def B_def N_def)
  have "\<not> selected" if "\<forall>c \<in> set s. \<not> normal_range N c"
    using that by (simp add: selected_def)
  then show ?thesis
    unfolding getFontOrFallback_eq u w F_def [symmetric] by auto
qed

theorem getFontOrFallback_selection_witness:
  "(js ''bold'' = js ''normal'' \<or> js ''bold'' = js ''bold'') \<and>
   (\<exists>st'. getFontOrFallback sampleEnvironment sampleOptions (Some (js ''bold'')) (Str [0x416])
            sampleStorage = Inr (js ''Noto Sans'', st')) \<and>
   (\<exists>st'. getFontOrFallback sampleEnvironment sampleOptions (Some (js ''bold'')) (Str [0x4E2D])
            sampleStorage = Inr (js ''Helvetica-Bold'', st')) \<and>
   (\<exists>st'. getFontOrFallback sampleEnvironment sampleOptions (Some (js ''bold'')) (Str (js ''Total''))
            sampleStorage = Inr (js ''Helvetica-Bold'', st'))"
  using getFontOrFallback_selection [of "js ''bold''" sampleEnvironment sampleOptions "[0x416]" sampleStorage]
    getFontOrFallback_selection [of "js ''bold''" sampleEnvironment sampleOptions "[0x4E2D]" sampleStorage]
    getFontOrFallback_selection [of "js ''bold''" sampleEnvironment sampleOptions "js ''Total''" sampleStorage]
  by (simp add: sampleOptions_def defaultOptions_def js_def)

subsection \<open>Columns of a table row\<close>

text \<open>
  C2. A row of \<open>N \<ge> 3\<close> columns: the columns \<open>0..N-3\<close> have the width
  \<open>(textPosition - marginLeft - marginRight) / (N - 2)\<close>; the first is at the left margin
  and each next one at the previous \<open>x\<close> plus that width plus 10. Column \<open>N-2\<close> is at the
  quantity position with the quantity width, column \<open>N-1\<close> at the total position with the
  total width. For \<open>N = 3\<close> the first width is \<open>textPosition - marginLeft - marginRight\<close>.
\<close>

theorem generateTableRow_columns:
  fixes opts :: options and columns :: "cell list"
  defines "N \<equiv> length columns"
    and "left \<equiv> marginLeft (document_style (style opts))"
    and "room \<equiv> textPosition (header_style (style opts)) - marginLeft (document_style (style opts))
                   - marginRight (document_style (style opts))"
  defines "w \<equiv> room / real (N - 2)"
  assumes "3 \<le> length columns"
  shows "\<exists>st'. generateTableRow env opts type columns st = Inr st' \<and>
           length (newTexts st st') = N \<and>
           tc_x (fst (newTexts st st' ! 0)) = Fin left \<and>
           (\<forall>i. Suc i < N - 2 \<longrightarrow>
              tc_x (fst (newTexts st st' ! Suc i)) = numAdd (tc_x (fst (newTexts st st' ! i))) (Fin (w + 10))) \<and>
           (\<forall>i < N - 2.
              tc_x (fst (newTexts st st' ! i)) = Fin (left + real i * (w + 10)) \<and>
              tc_width (fst (newTexts st st' ! i)) = Some (Fin w)) \<and>
           tc_x (fst (newTexts st st' ! (N - 2))) = Fin (position (quantity (table_style (style opts)))) \<and>
           tc_width (fst (newTexts st st' ! (N - 2))) = Some (Fin (column_maxWidth (quantity (table_style (style opts))))) \<and>
           tc_x (fst (newTexts st st' ! (N - 1))) = Fin (position (total (table_style (style opts)))) \<and>
           tc_width (fst (newTexts st st' ! (N - 1))) = Some (Fin (column_maxWidth (total (table_style (style opts))))) \<and>
           (N = 3 \<longrightarrow> tc_width (fst (newTexts st st' ! 0)) = Some (Fin room))"
proof -
  obtain st' cs where row: "generateTableRow env opts type columns st = Inr st'"
    and cs: "newTexts st st' = cs" "length cs = length columns"
    and place: "\<forall>j < length columns.
        tc_x (fst (cs ! j)) = columnX opts (int (length columns)) j
           ((nextStart (flexWidth opts (length columns)) ^^ j) (Fin (marginLeft (document_style (style opts))))) \<and>
        tc_width (fst (cs ! j)) = Some (columnWidth opts (int (length columns)) j (flexWidth opts (length columns)))"
    by (rule generateTableRow_cases [of env opts type columns st]) blast
  have fw: "flexWidth opts (length columns) = Fin w"
    unfolding w_def room_def N_def by (rule flexWidth_Fin [OF assms(5)])
  have flex: "tc_x (fst (cs ! i)) = Fin (left + real i * (w + 10)) \<and> tc_width (fst (cs ! i)) = Some (Fin w)"
    if "i < N - 2" for i
  proof -
    have "i < length columns" "int i < int (length columns) - 2"
      using that by (simp_all add: N_def)
    then show ?thesis
      using place by (simp add: fw funpow_nextStart columnX_def columnWidth_def left_def)
  qed
  have q: "tc_x (fst (cs ! (N - 2))) = Fin (position (quantity (table_style (style opts)))) \<and>
           tc_width (fst (cs ! (N - 2))) = Some (Fin (column_maxWidth (quantity (table_style (style opts)))))"
  proof -
    have "N - 2 < length columns" "int (N - 2) = int (length columns) - 2"
      using assms(5) by (simp_all add: N_def)
    then show ?thesis
      using place by (simp add: columnX_def columnWidth_def)
  qed
  have t: "tc_x (fst (cs ! (N - 1))) = Fin (position (total (table_style (style opts)))) \<and>
           tc_width (fst (cs ! (N - 1))) = Some (Fin (column_maxWidth (total (table_style (style opts)))))"
  proof -
    have "N - 1 < length columns" "int (N - 1) = int (length columns) - 1"
      using assms(5) by (simp_all add: N_def)
    then show ?thesis
      using place by (simp add: columnX_def columnWidth_def)
  qed
  have first: "tc_x (fst (cs ! 0)) = Fin left"
    using flex [of 0] assms(5) by (simp add: N_def)
  have step: "tc_x (fst (cs ! Suc i)) = numAdd (tc_x (fst (cs ! i))) (Fin (w + 10))" if "Suc i < N - 2" for i
    using flex [of i] flex [of "Suc i"] that by (simp add: algebra_simps)
  have three: "tc_width (fst (cs ! 0)) = Some (Fin room)" if "N = 3"
    using flex [of 0] that by (simp add: w_def)
  show ?thesis
    using row cs flex q t first step three by (simp add: N_def)
qed

theorem generateTableRow_columns_witness:
  "3 \<le> length sampleRow \<and>
   (\<exists>st'. generateTableRow sampleEnvironment sampleOptions Row sampleRow sampleStorage = Inr st' \<and>
      length (newTexts sampleStorage st') = 3 \<and>
      tc_x (fst (newTexts sampleStorage st' ! 0)) = Fin 30 \<and>
      tc_width (fst (newTexts sampleStorage st' ! 0)) = Some (Fin 270) \<and>
      tc_x (fst (newTexts sampleStorage st' ! 1)) = Fin 330 \<and>
      tc_width (fst (newTexts sampleStorage st' ! 1)) = Some (Fin 140) \<and>
      tc_x (fst (newTexts sampleStorage st' ! 2)) = Fin 490 \<and>
      tc_width (fst (newTexts sampleStorage st' ! 2)) = Some (Fin 80))"
proof -
  have len: "length sampleRow = 3" by (simp add: sampleRow_def)
  then have n: "3 \<le> length sampleRow" by simp
  show ?thesis
    using generateTableRow_columns [OF n, of sampleEnvironment sampleOptions Row sampleStorage]
    unfolding sampleOptions_layout len
    by auto
qed

subsection \<open>Rows of two columns\<close>

text \<open>
  C3 (as the code has it). A row of exactly two columns raises no error: its first cell is
  drawn at the quantity position with the quantity width, its second at the total position
  with the total width. The width shared by the other columns, a division by zero here, is
  not a finite number and no cell is drawn with it.
\<close>

theorem generateTableRow_two_columns:
  assumes "length columns = 2"
  shows "\<exists>st'. generateTableRow env opts type columns st = Inr st' \<and>
           map (\<lambda>p. (tc_x (fst p), tc_width (fst p))) (newTexts st st') =
             [(Fin (position (quantity (table_style (style opts)))),
               Some (Fin (column_maxWidth (quantity (table_style (style opts)))))),
              (Fin (position (total (table_style (style opts)))),
               Some (Fin (column_maxWidth (total (table_style (style opts))))))] \<and>
           (\<forall>x. flexWidth opts (length columns) \<noteq> Fin x)"
proof -
  obtain st' cs where row: "generateTableRow env opts type columns st = Inr st'"
    and cs: "newTexts st st' = cs" "length cs = length columns"
    and place: "\<forall>j < length columns.
        tc_x (fst (cs ! j)) = columnX opts (int (length columns)) j
           ((nextStart (flexWidth opts (length columns)) ^^ j) (Fin (marginLeft (document_style (style opts))))) \<and>
        tc_width (fst (cs ! j)) = Some (columnWidth opts (int (length columns)) j (flexWidth opts (length columns)))"
    by (rule generateTableRow_cases [of env opts type columns st]) blast
  obtain a b where ab: "cs = [a, b]"
    using cs(2) assms by (auto simp add: length_Suc_conv numeral_2_eq_2)
  have "tc_x (fst a) = Fin (position (quantity (table_style (style opts))))"
    "tc_width (fst a) = Some (Fin (column_maxWidth (quantity (table_style (style opts)))))"
    using place [rule_format, of 0] assms by (simp_all add: ab columnX_def columnWidth_def)
  moreover have "tc_x (fst b) = Fin (position (total (table_style (style opts))))"
    "tc_width (fst b) = Some (Fin (column_maxWidth (total (table_style (style opts)))))"
    using place [rule_format, of 1] assms by (simp_all add: ab columnX_def columnWidth_def)
  moreover have "\<forall>x. flexWidth opts (length columns) \<noteq> Fin x"
    using assms by (simp add: flexWidth_def jsDivide_def)
  ultimately show ?thesis
    using row cs by (simp add: ab)
qed

theorem generateTableRow_two_columns_witness:
  "length sampleTwoColumns = 2 \<and>
   (\<exists>st'. generateTableRow sampleEnvironment sampleOptions Header sampleTwoColumns sampleStorage = Inr st' \<and>
      map (\<lambda>p. (tc_x (fst p), tc_width (fst p))) (newTexts sampleStorage st') =
        [(Fin 330, Some (Fin 140)), (Fin 490, Some (Fin 80))]) \<and>
   flexWidth sampleOptions (length sampleTwoColumns) = PosInf"
proof -
  have n: "length sampleTwoColumns = 2" by (simp add: sampleTwoColumns_def)
  have "flexWidth sampleOptions (length sampleTwoColumns) = PosInf"
    by (simp add: n flexWidth_def jsDivide_def sampleOptions_layout)
  then show ?thesis
    using n generateTableRow_two_columns [OF n, of sampleEnvironment sampleOptions Header sampleStorage]
    unfolding sampleOptions_layout by simp
qed

text \<open>C3 as stated fails: a two-column row raises nothing and is drawn, both cells of it.\<close>

theorem generateTableRow_two_columns_counterexample:
  "\<not> isl (generateTableRow sampleEnvironment sampleOptions Row sampleTwoColumns sampleStorage) \<and>
   length (newTexts sampleStorage
     (projr (generateTableRow sampleEnvironment sampleOptions Row sampleTwoColumns sampleStorage))) = 2"
proof -
  obtain st' cs where "generateTableRow sampleEnvironment sampleOptions Row sampleTwoColumns sampleStorage = Inr st'"
    "newTexts sampleStorage st' = cs" "length cs = length sampleTwoColumns"
    by (rule generateTableRow_cases [of sampleEnvironment sampleOptions Row sampleTwoColumns sampleStorage]) blast
  then show ?thesis by (simp add: sampleTwoColumns_def)
qed

subsection \<open>Holding the position\<close>

text \<open>
  C4 (as the code has it). A \<open>setText\<close> call with \<open>skipDown\<close> true draws at \<open>y0\<close>, the cursor's
  \<open>y\<close> after the \<open>marginTop\<close> advance, and the document reports \<open>yNew\<close>. The code computes
  \<open>diff = yNew - y0\<close> in doubles; \<open>diff\<close> is positive only if \<open>yNew - y0\<close> is, and it is positive
  if \<open>yNew - y0\<close> is at least the smallest positive double. If \<open>diff\<close> is positive, the cursor's
  \<open>y\<close> becomes \<open>yNew - diff\<close>, again in doubles: this is \<open>y0\<close> where \<open>y0\<close> is a double and the
  first subtraction is exact, and in general a number that differs from \<open>y0\<close> by at most
  \<open>(\<bar>yNew - y0\<bar> + \<bar>y0\<bar>) / 2 ^ 52\<close> (and \<open>2 ^ -1073\<close>, for numbers near zero). If \<open>diff\<close> is
  not positive, the cursor's \<open>y\<close> becomes \<open>yNew - 11.5\<close> in doubles; for \<open>yNew = y0\<close> this is
  \<open>y0 - 11.5\<close> rounded to a double.
\<close>

theorem setText_skipDown:
  assumes "skipDown options = Some True"
  shows "\<exists>st' c yNew. setText env opts v options st = Inr st' \<and>
           newTexts st st' = [(c, yNew)] \<and>
           tc_y c = cursor_y st + orDefault (marginTop options) 0 \<and>
           doc_y (document st') = yNew \<and>
           (0 < doubleMinus yNew (tc_y c) \<longrightarrow>
              0 < yNew - tc_y c \<and>
              cursor_y st' = doubleMinus yNew (doubleMinus yNew (tc_y c)) \<and>
              \<bar>cursor_y st' - tc_y c\<bar> \<le> (\<bar>yNew - tc_y c\<bar> + \<bar>tc_y c\<bar>) / 2 ^ 52 + pow2 (- 1073)) \<and>
           (pow2 (- 1074) \<le> yNew - tc_y c \<longrightarrow> 0 < doubleMinus yNew (tc_y c)) \<and>
           (0 < doubleMinus yNew (tc_y c) \<and> doubleMinus yNew (tc_y c) = yNew - tc_y c \<and>
              double (tc_y c) = tc_y c \<longrightarrow> cursor_y st' = tc_y c) \<and>
           (\<not> 0 < doubleMinus yNew (tc_y c) \<longrightarrow> cursor_y st' = doubleMinus yNew 11.5) \<and>
           (yNew = tc_y c \<longrightarrow> cursor_y st' = doubleMinus (tc_y c) 11.5)"
proof -
  obtain st' where st': "setText env opts v options st = Inr st'"
    using setText_Inr by blast
  define c where "c = drawn env opts v options st"
  define yNew where "yNew = doc_y (document st')"
  have new: "newTexts st st' = [(c, yNew)]"
    unfolding c_def yNew_def by (rule newTexts_append [OF setText_calls [OF st']])
  have y0: "tc_y c = cursor_y st + orDefault (marginTop options) 0"
    by (simp add: c_def drawn_def)
  have held: "cursor_y st' = heldY (tc_y c) yNew"
    using setText_cursor_y [OF st'] assms by (simp add: y0 yNew_def)
  have 1: "0 < yNew - tc_y c \<and> cursor_y st' = doubleMinus yNew (doubleMinus yNew (tc_y c)) \<and>
      \<bar>cursor_y st' - tc_y c\<bar> \<le> (\<bar>yNew - tc_y c\<bar> + \<bar>tc_y c\<bar>) / 2 ^ 52 + pow2 (- 1073)"
    if "0 < doubleMinus yNew (tc_y c)"
  proof -
    have "0 < yNew - tc_y c"
      using that double_pos [of "yNew - tc_y c"] by (simp add: doubleMinus_def)
    moreover have "cursor_y st' = doubleMinus yNew (doubleMinus yNew (tc_y c))"
      using that held by (simp add: heldY_def)
    ultimately show ?thesis
      using restore_error [of yNew "tc_y c"] by simp
  qed
  have 2: "0 < doubleMinus yNew (tc_y c)" if "pow2 (- 1074) \<le> yNew - tc_y c"
    unfolding doubleMinus_def using that by (rule double_positive)
  have 3: "cursor_y st' = tc_y c"
    if "0 < doubleMinus yNew (tc_y c)" "doubleMinus yNew (tc_y c) = yNew - tc_y c" "double (tc_y c) = tc_y c"
    using that held by (simp add: heldY_def doubleMinus_def)
  have 4: "cursor_y st' = doubleMinus yNew 11.5" if "\<not> 0 < doubleMinus yNew (tc_y c)"
    using that held by (simp add: heldY_def)
  have 5: "cursor_y st' = doubleMinus (tc_y c) 11.5" if "yNew = tc_y c"
    using that held by (simp add: heldY_def doubleMinus_def double_def)
  have y: "doc_y (document st') = yNew" by (simp add: yNew_def)
  have i1: "0 < doubleMinus yNew (tc_y c) \<longrightarrow>
              0 < yNew - tc_y c \<and>
              cursor_y st' = doubleMinus yNew (doubleMinus yNew (tc_y c)) \<and>
              \<bar>cursor_y st' - tc_y c\<bar> \<le> (\<bar>yNew - tc_y c\<bar> + \<bar>tc_y c\<bar>) / 2 ^ 52 + pow2 (- 1073)"
    using 1 by blast
  have i2: "pow2 (- 1074) \<le> yNew - tc_y c \<longrightarrow> 0 < doubleMinus yNew (tc_y c)"
    using 2 by blast
  have i3: "0 < doubleMinus yNew (tc_y c) \<and> doubleMinus yNew (tc_y c) = yNew - tc_y c \<and>
              double (tc_y c) = tc_y c \<longrightarrow> cursor_y st' = tc_y c"
    using 3 by blast
  have i4: "\<not> 0 < doubleMinus yNew (tc_y c) \<longrightarrow> cursor_y st' = doubleMinus yNew 11.5"
    using 4 by blast
  have i5: "yNew = tc_y c \<longrightarrow> cursor_y st' = doubleMinus (tc_y c) 11.5"
    using 5 by blast
  show ?thesis
    apply (rule exI [of _ st'])
    apply (rule exI [of _ c])
    apply (rule exI [of _ yNew])
    apply (intro conjI)
    apply (fact st' new y0 y i1 i2 i3 i4 i5)+
    done
qed

theorem setText_skipDown_witness:
  "skipDown (noOptions\<lparr>marginTop := Some 12, skipDown := Some True\<rparr>) = Some True \<and>
   0 < doubleMinus 324 312 \<and> pow2 (- 1074) \<le> 324 - 312 \<and>
   doubleMinus 324 312 = 324 - 312 \<and> double 312 = 312 \<and>
   (\<exists>st'. setText sampleEnvironment sampleOptions (Str (js ''Total''))
            (noOptions\<lparr>marginTop := Some 12, skipDown := Some True\<rparr>) (sampleStorage\<lparr>cursor_y := 300\<rparr>) = Inr st' \<and>
          doc_y (document st') = 324 \<and> cursor_y st' = 312) \<and>
   \<not> 0 < doubleMinus 312 312 \<and>
   (\<exists>st'. setText sampleEnvironment sampleOptions (Str [])
            (noOptions\<lparr>marginTop := Some 12, skipDown := Some True\<rparr>) (sampleStorage\<lparr>cursor_y := 300\<rparr>) = Inr st' \<and>
          doc_y (document st') = 312 \<and> cursor_y st' = 300.5)"
proof -
  have a: "skipDown (noOptions\<lparr>marginTop := Some 12, skipDown := Some True\<rparr>) = Some True"
    by (simp add: noOptions_def)
  have e: "0 < doubleMinus 324 312" "doubleMinus 324 312 = 324 - 312" "double 312 = 312"
    "\<not> 0 < doubleMinus 312 312" "doubleMinus 312 (23 / 2) = 601 / 2" "pow2 (- 1074) \<le> 324 - 312"
    by (simp_all add: double_eval)
  have d: "drawn sampleEnvironment sampleOptions (Str s) (noOptions\<lparr>marginTop := Some 12, skipDown := Some True\<rparr>)
        (sampleStorage\<lparr>cursor_y := 300\<rparr>) =
      \<lparr>tc_text = Str s, tc_x = Fin 0, tc_y = 312, tc_align = js ''left'', tc_width = None\<rparr>"
    if "\<forall>c \<in> set s. c \<le> 0x500" for s
    using that
    by (simp add: drawn_def valueOrTransliterate_def test_def list_ex_iff sampleOptions_def defaultOptions_def
        sampleStorage_def newStorage_def noOptions_def orDefault_def)
  have d1: "drawn sampleEnvironment sampleOptions (Str (js ''Total'')) (noOptions\<lparr>marginTop := Some 12, skipDown := Some True\<rparr>)
        (sampleStorage\<lparr>cursor_y := 300\<rparr>) =
      \<lparr>tc_text = Str (js ''Total''), tc_x = Fin 0, tc_y = 312, tc_align = js ''left'', tc_width = None\<rparr>"
    by (rule d) (simp add: js_def)
  have d2: "drawn sampleEnvironment sampleOptions (Str []) (noOptions\<lparr>marginTop := Some 12, skipDown := Some True\<rparr>)
        (sampleStorage\<lparr>cursor_y := 300\<rparr>) =
      \<lparr>tc_text = Str [], tc_x = Fin 0, tc_y = 312, tc_align = js ''left'', tc_width = None\<rparr>"
    by (rule d) simp
  have y: "yNew = 324" if "setText sampleEnvironment sampleOptions (Str (js ''Total''))
            (noOptions\<lparr>marginTop := Some 12, skipDown := Some True\<rparr>) (sampleStorage\<lparr>cursor_y := 300\<rparr>) = Inr st'"
     "doc_y (document st') = yNew" for st' yNew
    using setText_reported [OF that(1)] that(2) unfolding d1
    by (simp add: js_def sampleEnvironment_def sampleLines_def)
  have z: "yNew = 312" if "setText sampleEnvironment sampleOptions (Str [])
            (noOptions\<lparr>marginTop := Some 12, skipDown := Some True\<rparr>) (sampleStorage\<lparr>cursor_y := 300\<rparr>) = Inr st'"
     "doc_y (document st') = yNew" for st' yNew
    using setText_reported [OF that(1)] that(2) unfolding d2
    by (simp add: sampleEnvironment_def sampleLines_def)
  show ?thesis
    using setText_skipDown [OF a, of sampleEnvironment sampleOptions "Str (js ''Total'')" "sampleStorage\<lparr>cursor_y := 300\<rparr>"]
      setText_skipDown [OF a, of sampleEnvironment sampleOptions "Str []" "sampleStorage\<lparr>cursor_y := 300\<rparr>"]
    apply (simp only: a e simp_thms)
    apply (elim exE conjE)
    apply (frule (1) y)
    apply (frule (1) z)
    apply (simp add: noOptions_def orDefault_def e)
    done
qed

text \<open>
  C4 as stated fails: the cursor at 0.1, a text of one line, twelve units high. The document
  reports 12.1; \<open>12.1 - 0.1\<close> is 12 in doubles and \<open>12.1 - 12\<close> is 0.09999999999999964, not 0.1.
\<close>

theorem setText_skipDown_counterexample:
  "skipDown (noOptions\<lparr>skipDown := Some True\<rparr>) = Some True \<and>
   double (1 / 10) = 3602879701896397 / 36028797018963968 \<and>
   \<not> isl (setText doubleEnvironment sampleOptions (Str (js ''Total'')) (noOptions\<lparr>skipDown := Some True\<rparr>)
           (sampleStorage\<lparr>cursor_y := double (1 / 10)\<rparr>)) \<and>
   map (tc_y \<circ> fst) (newTexts (sampleStorage\<lparr>cursor_y := double (1 / 10)\<rparr>)
     (projr (setText doubleEnvironment sampleOptions (Str (js ''Total'')) (noOptions\<lparr>skipDown := Some True\<rparr>)
              (sampleStorage\<lparr>cursor_y := double (1 / 10)\<rparr>)))) = [double (1 / 10)] \<and>
   map snd (newTexts (sampleStorage\<lparr>cursor_y := double (1 / 10)\<rparr>)
     (projr (setText doubleEnvironment sampleOptions (Str (js ''Total'')) (noOptions\<lparr>skipDown := Some True\<rparr>)
              (sampleStorage\<lparr>cursor_y := double (1 / 10)\<rparr>)))) = [6811694436397875 / 562949953421312] \<and>
   0 < 6811694436397875 / 562949953421312 - double (1 / 10) \<and>
   cursor_y (projr (setText doubleEnvironment sampleOptions (Str (js ''Total'')) (noOptions\<lparr>skipDown := Some True\<rparr>)
              (sampleStorage\<lparr>cursor_y := double (1 / 10)\<rparr>))) = 56294995342131 / 562949953421312 \<and>
   cursor_y (projr (setText doubleEnvironment sampleOptions (Str (js ''Total'')) (noOptions\<lparr>skipDown := Some True\<rparr>)
              (sampleStorage\<lparr>cursor_y := double (1 / 10)\<rparr>))) \<noteq> double (1 / 10)"
proof -
  define y0 :: real where "y0 = 3602879701896397 / 36028797018963968"
  define st where "st = sampleStorage\<lparr>cursor_y := y0\<rparr>"
  have tenth: "double (1 / 10) = y0"
    by (simp add: y0_def double_eval)
  obtain st' where st': "setText doubleEnvironment sampleOptions (Str (js ''Total''))
      (noOptions\<lparr>skipDown := Some True\<rparr>) st = Inr st'"
    using setText_Inr by blast
  have d: "drawn doubleEnvironment sampleOptions (Str (js ''Total'')) (noOptions\<lparr>skipDown := Some True\<rparr>) st =
      \<lparr>tc_text = Str (js ''Total''), tc_x = Fin 0, tc_y = y0, tc_align = js ''left'', tc_width = None\<rparr>"
    by (simp add: drawn_def valueOrTransliterate_def test_def list_ex_iff sampleOptions_def defaultOptions_def
        sampleStorage_def newStorage_def noOptions_def orDefault_def st_def js_def)
  have "doc_y (document st') = double (y0 + 12)"
    using setText_reported [OF st'] unfolding d
    by (simp add: doubleEnvironment_def sampleLines_def js_def)
  also have "\<dots> = 6811694436397875 / 562949953421312"
    by (simp add: y0_def double_eval)
  finally have yNew: "doc_y (document st') = 6811694436397875 / 562949953421312" .
  have new: "newTexts st st' = [(\<lparr>tc_text = Str (js ''Total''), tc_x = Fin 0, tc_y = y0, tc_align = js ''left'',
      tc_width = None\<rparr>, 6811694436397875 / 562949953421312)]"
    using newTexts_append [OF setText_calls [OF st']] unfolding d yNew .
  have "cursor_y st' = heldY y0 (6811694436397875 / 562949953421312)"
    using setText_cursor_y [OF st'] by (simp add: yNew st_def noOptions_def orDefault_def)
  also have "\<dots> = 56294995342131 / 562949953421312"
    by (simp add: heldY_def y0_def double_eval)
  finally have held: "cursor_y st' = 56294995342131 / 562949953421312" .
  have "(56294995342131 / 562949953421312 :: real) \<noteq> y0" "0 < 6811694436397875 / 562949953421312 - y0"
    by (simp_all add: y0_def)
  then show ?thesis
    unfolding tenth st_def [symmetric] st'
    by (simp add: new held noOptions_def y0_def)
qed

subsection \<open>Height of a table row\<close>

text \<open>
  C5 (as the code has it). After the cells of a row are drawn, each with \<open>skipDown\<close>, the
  cursor's \<open>y\<close> is set to the largest of the \<open>y\<close> the row starts at, the document's \<open>y\<close> plus 17,
  and the \<open>y\<close>s the document reported after the cells. This is the largest \<open>y\<close> reported after a
  cell exactly when some cell is reported at the row's start or below it, which a backend that
  starts a new page need not do. The first cell is drawn at the row's start and each next one
  at the \<open>y\<close> the call before it left the cursor at (C4); this is the row's start for all of
  them where the two subtractions of every call cancel. The state is the one after
  \<open>this.setCursor("y", maxY)\<close>, with which an item row ends; a header row then draws its
  separator line, \<open>regularSize + 2\<close> further down.
\<close>

theorem tableRow_height:
  "\<exists>st1. tableRowCells env opts type columns st = Inr st1 \<and>
     generateTableRow env opts type columns st =
       Inr (if type = Header then generateLine env opts st1 else st1) \<and>
     length (newTexts st st1) = length columns \<and>
     cursor_y st1 = Max (insert (doc_y (document st) + 17) (snd ` set (newTexts st st1))) \<and>
     ((\<exists>p \<in> set (newTexts st st1). doc_y (document st) + 17 \<le> snd p) \<longleftrightarrow>
        columns \<noteq> [] \<and> cursor_y st1 = Max (snd ` set (newTexts st st1))) \<and>
     chained (doc_y (document st) + 17) (newTexts st st1) \<and>
     ((\<forall>p \<in> set (newTexts st st1). heldY (doc_y (document st) + 17) (snd p) = doc_y (document st) + 17) \<longrightarrow>
        (\<forall>p \<in> set (newTexts st st1). tc_y (fst p) = doc_y (document st) + 17))"
proof -
  define start where "start = doc_y (document st) + 17"
  obtain st1 st' cs where cells: "tableRowCells env opts type columns st = Inr st1"
    and row: "generateTableRow env opts type columns st = Inr st'"
      "st' = (if type = Header then generateLine env opts st1 else st1)"
    and cs: "newTexts st st1 = cs" "length cs = length columns" "newTexts st st' = cs"
    and y: "cursor_y st1 = Max (insert (doc_y (document st) + 17) (snd ` set cs))"
    by (rule generateTableRow_cases [of env opts type columns st]) blast
  have y': "cursor_y st1 = Max (insert start (snd ` set cs))"
    using y by (simp add: start_def)
  have ne: "cs \<noteq> [] \<longleftrightarrow> columns \<noteq> []" using cs(2) by auto
  have m: "cursor_y st1 = max start (Max (snd ` set cs))" if "cs \<noteq> []"
    using y' that by simp
  have tallest: "(\<exists>p \<in> set cs. start \<le> snd p) \<longleftrightarrow> columns \<noteq> [] \<and> cursor_y st1 = Max (snd ` set cs)"
  proof
    assume "\<exists>p \<in> set cs. start \<le> snd p"
    then obtain p where p: "p \<in> set cs" "start \<le> snd p" by blast
    then have "snd p \<le> Max (snd ` set cs)" by simp
    then have "start \<le> Max (snd ` set cs)" using p(2) by simp
    moreover have "cs \<noteq> []" using p(1) by auto
    ultimately show "columns \<noteq> [] \<and> cursor_y st1 = Max (snd ` set cs)"
      using m ne by simp
  next
    assume a: "columns \<noteq> [] \<and> cursor_y st1 = Max (snd ` set cs)"
    then have c: "cs \<noteq> []" using ne by simp
    then have "start \<le> Max (snd ` set cs)" using m a by simp
    moreover have "Max (snd ` set cs) \<in> snd ` set cs"
      using c by (intro Max_in) simp_all
    then obtain p where "p \<in> set cs" "Max (snd ` set cs) = snd p"
      by (rule imageE)
    ultimately show "\<exists>p \<in> set cs. start \<le> snd p" by auto
  qed
  have chain: "chained start cs"
    using generateTableRow_chain [OF row(1)] cs(3) by (simp add: start_def)
  then have "(\<forall>p \<in> set cs. heldY start (snd p) = start) \<longrightarrow> (\<forall>p \<in> set cs. tc_y (fst p) = start)"
    using chained_same by blast
  then show ?thesis
    using cells row cs y' tallest chain unfolding start_def by simp
qed

theorem tableRow_height_witness:
  "\<exists>st1. generateTableRow sampleEnvironment sampleOptions Row sampleRow sampleStorage = Inr st1 \<and>
      map (\<lambda>p. (tc_y (fst p), snd p)) (newTexts sampleStorage st1) = [(89, 113), (89, 101), (89, 101)] \<and>
      (\<exists>p \<in> set (newTexts sampleStorage st1). doc_y (document sampleStorage) + 17 \<le> snd p) \<and>
      (\<forall>p \<in> set (newTexts sampleStorage st1).
         heldY (doc_y (document sampleStorage) + 17) (snd p) = doc_y (document sampleStorage) + 17) \<and>
      sampleRow \<noteq> [] \<and>
      cursor_y st1 = Max (snd ` set (newTexts sampleStorage st1)) \<and>
      cursor_y st1 = 113"
proof -
  have a: "sampleRow \<noteq> []" by (simp add: sampleRow_def)
  have y: "doc_y (document sampleStorage) = 72"
    by (simp add: sampleStorage_def newStorage_def sampleEnvironment_def)
  obtain st1 where row: "generateTableRow sampleEnvironment sampleOptions Row sampleRow sampleStorage = Inr st1"
    and m: "(\<exists>p \<in> set (newTexts sampleStorage st1). doc_y (document sampleStorage) + 17 \<le> snd p) \<longleftrightarrow>
        sampleRow \<noteq> [] \<and> cursor_y st1 = Max (snd ` set (newTexts sampleStorage st1))"
    using tableRow_height [of sampleEnvironment sampleOptions Row sampleRow sampleStorage] by auto
  have d: "map (\<lambda>p. (tc_y (fst p), snd p)) (newTexts sampleStorage st1) = [(89, 113), (89, 101), (89, 101)]"
    using sampleRow_drawn [OF row y] .
  then obtain p q r where pqr: "newTexts sampleStorage st1 = [p, q, r]"
    "tc_y (fst p) = 89" "snd p = 113" "tc_y (fst q) = 89" "snd q = 101" "tc_y (fst r) = 89" "snd r = 101"
    by (auto simp add: map_eq_Cons_conv)
  have e: "\<exists>p \<in> set (newTexts sampleStorage st1). doc_y (document sampleStorage) + 17 \<le> snd p"
    by (simp add: pqr y)
  have h: "\<forall>p \<in> set (newTexts sampleStorage st1).
         heldY (doc_y (document sampleStorage) + 17) (snd p) = doc_y (document sampleStorage) + 17"
    by (simp add: pqr y heldY_sample)
  have c: "cursor_y st1 = Max (snd ` set (newTexts sampleStorage st1))"
    using m e by blast
  then have k: "cursor_y st1 = 113" by (simp add: pqr)
  show ?thesis
    apply (rule exI [of _ st1])
    apply (intro conjI)
    apply (fact row d e h a c k)+
    done
qed

text \<open>
  C5 as stated fails on a backend with pages: a row that starts at 777, below the last line
  of the page. The first cell, of two lines, is reported at 96 on the next page and the two
  others, drawn at 84.5, at 96.5; the cursor's \<open>y\<close> after the row is 777, the \<open>y\<close> the row
  started at, and the cells are not drawn at the same \<open>y\<close>.
\<close>

theorem tableRow_height_counterexample:
  "\<not> isl (generateTableRow pagingEnvironment sampleOptions Row sampleRow pagedStorage) \<and>
   map (tc_y \<circ> fst) (newTexts pagedStorage
      (projr (generateTableRow pagingEnvironment sampleOptions Row sampleRow pagedStorage))) = [777, 84.5, 84.5] \<and>
   map snd (newTexts pagedStorage
      (projr (generateTableRow pagingEnvironment sampleOptions Row sampleRow pagedStorage))) = [96, 96.5, 96.5] \<and>
   cursor_y (projr (generateTableRow pagingEnvironment sampleOptions Row sampleRow pagedStorage)) = 777"
proof -
  have y: "doc_y (document pagedStorage) = 760"
    by (simp add: pagedStorage_def)
  obtain st1 st' cs where row: "generateTableRow pagingEnvironment sampleOptions Row sampleRow pagedStorage = Inr st'"
      "st' = (if Row = Header then generateLine pagingEnvironment sampleOptions st1 else st1)"
    and cs: "newTexts pagedStorage st1 = cs"
    and m: "cursor_y st1 = Max (insert (doc_y (document pagedStorage) + 17) (snd ` set cs))"
    by (rule generateTableRow_cases [of pagingEnvironment sampleOptions Row sampleRow pagedStorage]) blast
  have eq: "st' = st1" using row(2) by simp
  have d: "map (\<lambda>p. (tc_y (fst p), snd p)) (newTexts pagedStorage st') = [(777, 96), (84.5, 96.5), (84.5, 96.5)]"
    using pagedRow_drawn [OF row(1) y] .
  then obtain p q r where pqr: "newTexts pagedStorage st' = [p, q, r]"
    "tc_y (fst p) = 777" "snd p = 96" "tc_y (fst q) = 84.5" "snd q = 96.5" "tc_y (fst r) = 84.5" "snd r = 96.5"
    by (auto simp add: map_eq_Cons_conv)
  have "cs = [p, q, r]"
    using cs pqr(1) eq by simp
  then have "cursor_y st' = 777"
    using m by (simp add: eq pqr y)
  then show ?thesis
    unfolding row(1) by (simp add: pqr)
qed

subsection \<open>Prices\<close>

text \<open>
  C6 (as the code has it). For a finite number \<open>v\<close> smaller than \<open>10^21\<close> in size,
  \<open>prettyPrice\<close> renders \<open>v\<close> with exactly two decimal places: the digits of \<open>n div 100\<close>, a
  point and the two last digits of \<open>n\<close>, where \<open>n\<close> is the integer nearest to \<open>100 * |v|\<close>,
  after a minus sign for a negative \<open>v\<close>. A string is returned as it is. In both cases a
  configured, non-empty currency code is appended after a space.
\<close>

theorem prettyPrice_two_decimals:
  fixes v :: real
  defines "n \<equiv> nat \<lfloor>\<bar>v\<bar> * 100 + 1 / 2\<rfloor>"
  assumes "\<bar>v\<bar> < 10 ^ 21"
  shows "prettyPrice env opts (Num (Fin v)) =
           (if v < 0 then js ''-'' else []) @ digits (n div 100) @ js ''.'' @
           [48 + n div 10 mod 10, 48 + n mod 10] @
           (case currency (data_invoice opts) of
              None \<Rightarrow> [] | Some c \<Rightarrow> if c \<noteq> [] then js '' '' @ c else []) \<and>
         (\<forall>c \<in> set (digits (n div 100)). 48 \<le> c \<and> c \<le> 57) \<and>
         prettyPrice env opts (Str s) =
           s @ (case currency (data_invoice opts) of
                  None \<Rightarrow> [] | Some c \<Rightarrow> if c \<noteq> [] then js '' '' @ c else [])"
proof -
  have "toFixed2 env (Fin v) = (if v < 0 then js ''-'' else []) @ digits (n div 100) @ js ''.'' @
           [48 + n div 10 mod 10, 48 + n mod 10]"
    using assms(2) by (simp add: fixed2_eq Let_def n_def abs_if)
  then show ?thesis
    using digits_range [of "n div 100"]
    by (simp add: prettyPrice_def split: option.splits)
qed

theorem prettyPrice_two_decimals_witness:
  "\<bar>516 / 10 :: real\<bar> < 10 ^ 21 \<and> \<bar>7262054399134925 / 2 ^ 47 :: real\<bar> < 10 ^ 21 \<and>
   prettyPrice sampleEnvironment sampleOptions (Num (Fin (516 / 10))) = js ''51.60 EUR'' \<and>
   prettyPrice sampleEnvironment sampleOptions (Num (Fin (7262054399134925 / 2 ^ 47))) = js ''51.60 EUR'' \<and>
   prettyPrice sampleEnvironment (defaultOptions []) (Str (js ''51.6'')) = js ''51.6'' \<and>
   prettyPrice sampleEnvironment sampleOptions (Str (js ''10'')) = js ''10 EUR''"
proof -
  have a: "\<bar>516 / 10 :: real\<bar> < 10 ^ 21" by simp
  have b: "\<bar>7262054399134925 / 2 ^ 47 :: real\<bar> < 10 ^ 21" by simp
  have c: "currency (data_invoice sampleOptions) = Some (js ''EUR'')"
    "currency (data_invoice (defaultOptions [])) = None"
    by (simp_all add: sampleOptions_def defaultOptions_def)
  have n: "nat \<lfloor>\<bar>516 / 10 :: real\<bar> * 100 + 1 / 2\<rfloor> = 5160"
    "nat \<lfloor>\<bar>7262054399134925 / 2 ^ 47 :: real\<bar> * 100 + 1 / 2\<rfloor> = 5160"
    by simp_all
  note d = digits_51
  show ?thesis
    using a b d
      prettyPrice_two_decimals [OF a, of sampleEnvironment sampleOptions "js ''10''"]
      prettyPrice_two_decimals [OF b, of sampleEnvironment sampleOptions "js ''10''"]
      prettyPrice_two_decimals [OF a, of sampleEnvironment "defaultOptions []" "js ''51.6''"]
    unfolding c n
    by (simp add: js_def)
qed

text \<open>
  C6 as stated fails for the numbers that are not finite: \<open>toFixed\<close> renders them as
  \<open>toString\<close> does, with no decimal place.
\<close>

theorem prettyPrice_two_decimals_counterexample:
  "prettyPrice sampleEnvironment (defaultOptions []) (Num NaN) = js ''NaN'' \<and>
   prettyPrice sampleEnvironment sampleOptions (Num PosInf) = js ''Infinity EUR''"
  by (simp add: prettyPrice_def sampleOptions_def defaultOptions_def js_def)

subsection \<open>Registration of the fallback font\<close>

text \<open>
  C7. In the lifetime of a document the fallback font is registered at most once: after
  \<open>generateBuffer\<close> the registrations are those of \<open>loadCustomFonts\<close>, followed by the fallback's
  if and only if the flag is set. A call of \<open>getFontOrFallback\<close> that selects the fallback
  font returns its name and leaves the flag set; if the flag was not set before, the call
  registers the fallback font, once. A call that does not select it, and every call made
  with the flag set, leaves the storage as it is, so it registers nothing and the flag never
  goes back. The same holds for a text drawn, and for any number of texts drawn one after
  the other: the flag is set afterwards if it was before or one of the texts selects the
  fallback font, and the font is registered once if the flag was not set and one of them
  selects it, and not at all otherwise.
\<close>

theorem fallback_registered_once:
  fixes opts :: options
  defines "fb \<equiv> (fallback_name (fallback (fonts (style opts))), fallback_path (fallback (fonts (style opts))))"
  shows "(\<exists>st'. generateBuffer env opts (newStorage env) = Inr st' \<and>
            registrations (calls (document st')) =
              registrations (calls (document (loadCustomFonts opts (newStorage env)))) @
              (if loaded st' then [fb] else [])) \<and>
         (\<exists>n st'. getFontOrFallback env opts w v st = Inr (n, st') \<and>
            (usesFallback env opts v \<longrightarrow> n = fallback_name (fallback (fonts (style opts))) \<and> loaded st') \<and>
            (usesFallback env opts v \<and> \<not> loaded st \<longrightarrow>
               registrations (calls (document st')) = registrations (calls (document st)) @ [fb]) \<and>
            (\<not> usesFallback env opts v \<longrightarrow> st' = st) \<and>
            (loaded st \<longrightarrow> st' = st) \<and>
            (n \<noteq> fallback_name (fallback (fonts (style opts))) \<longrightarrow> st' = st) \<and>
            (\<not> loaded st \<and> st' \<noteq> st \<longrightarrow>
               n = fallback_name (fallback (fonts (style opts))) \<and> loaded st' \<and>
               registrations (calls (document st')) = registrations (calls (document st)) @ [fb])) \<and>
         (\<exists>st'. setText env opts v options st = Inr st' \<and>
            (loaded st' \<longleftrightarrow> loaded st \<or> usesFallback env opts v) \<and>
            registrations (calls (document st')) =
              registrations (calls (document st)) @
                (if usesFallback env opts v \<and> \<not> loaded st then [fb] else [])) \<and>
         (\<exists>st'. forEach (\<lambda>p. setText env opts (fst p) (snd p)) items st = Inr st' \<and>
            (loaded st' \<longleftrightarrow> loaded st \<or> (\<exists>p \<in> set items. usesFallback env opts (fst p))) \<and>
            registrations (calls (document st')) =
              registrations (calls (document st)) @
                (if (\<exists>p \<in> set items. usesFallback env opts (fst p)) \<and> \<not> loaded st then [fb] else []))"
proof -
  obtain st' where run: "generateBuffer env opts (newStorage env) = Inr st'"
    and s: "steps env opts (loadCustomFonts opts (newStorage env)) st'"
    by (rule generateBuffer_cases)
  have "\<not> loaded (loadCustomFonts opts (newStorage env))"
    by (simp add: loadCustomFonts_def newStorage_def Let_def split: option.splits)
  then have "fontInv opts (registrations (calls (document (loadCustomFonts opts (newStorage env)))))
      (loadCustomFonts opts (newStorage env))"
    by (simp add: fontInv_def)
  then have "fontInv opts (registrations (calls (document (loadCustomFonts opts (newStorage env))))) st'"
    by (rule steps_fontInv [OF s])
  then have 1: "\<exists>st'. generateBuffer env opts (newStorage env) = Inr st' \<and>
            registrations (calls (document st')) =
              registrations (calls (document (loadCustomFonts opts (newStorage env)))) @
              (if loaded st' then [fb] else [])"
    using run by (simp add: fontInv_def fb_def)
  have 2: "\<exists>n st'. getFontOrFallback env opts w v st = Inr (n, st') \<and>
            (usesFallback env opts v \<longrightarrow> n = fallback_name (fallback (fonts (style opts))) \<and> loaded st') \<and>
            (usesFallback env opts v \<and> \<not> loaded st \<longrightarrow>
               registrations (calls (document st')) = registrations (calls (document st)) @ [fb]) \<and>
            (\<not> usesFallback env opts v \<longrightarrow> st' = st) \<and>
            (loaded st \<longrightarrow> st' = st) \<and>
            (n \<noteq> fallback_name (fallback (fonts (style opts))) \<longrightarrow> st' = st) \<and>
            (\<not> loaded st \<and> st' \<noteq> st \<longrightarrow>
               n = fallback_name (fallback (fonts (style opts))) \<and> loaded st' \<and>
               registrations (calls (document st')) = registrations (calls (document st)) @ [fb])"
    by (simp add: getFontOrFallback_eq registrations_append fb_def)
  obtain st2 where st2: "setText env opts v options st = Inr st2"
    using setText_Inr by blast
  have 3: "\<exists>st'. setText env opts v options st = Inr st' \<and>
            (loaded st' \<longleftrightarrow> loaded st \<or> usesFallback env opts v) \<and>
            registrations (calls (document st')) =
              registrations (calls (document st)) @
                (if usesFallback env opts v \<and> \<not> loaded st then [fb] else [])"
    using st2 setText_loaded [OF st2] setText_registrations [OF st2] by (simp add: fb_def)
  have 4: "\<exists>st'. forEach (\<lambda>p. setText env opts (fst p) (snd p)) items st = Inr st' \<and>
            (loaded st' \<longleftrightarrow> loaded st \<or> (\<exists>p \<in> set items. usesFallback env opts (fst p))) \<and>
            registrations (calls (document st')) =
              registrations (calls (document st)) @
                (if (\<exists>p \<in> set items. usesFallback env opts (fst p)) \<and> \<not> loaded st then [fb] else [])"
    unfolding fb_def by (rule forEach_setText_fonts)
  from 1 2 3 4 show ?thesis by blast
qed

theorem fallback_registered_once_witness:
  "usesFallback sampleEnvironment sampleOptions (Str [0x416]) \<and>
   \<not> usesFallback sampleEnvironment sampleOptions (Str (js ''Total'')) \<and>
   loaded (sampleStorage\<lparr>loaded := True\<rparr>) \<and> \<not> loaded sampleStorage \<and>
   registrations (calls (document sampleStorage)) = [] \<and>
   getFontOrFallback sampleEnvironment sampleOptions (Some (js ''normal'')) (Str [0x416])
     (sampleStorage\<lparr>loaded := True\<rparr>) = Inr (js ''Noto Sans'', sampleStorage\<lparr>loaded := True\<rparr>) \<and>
   getFontOrFallback sampleEnvironment sampleOptions (Some (js ''normal'')) (Str (js ''Total''))
     sampleStorage = Inr (js ''Helvetica'', sampleStorage) \<and>
   (\<exists>st'. getFontOrFallback sampleEnvironment sampleOptions (Some (js ''normal'')) (Str [0x416])
            sampleStorage = Inr (js ''Noto Sans'', st') \<and> loaded st' \<and> st' \<noteq> sampleStorage \<and>
          registrations (calls (document st')) = [(js ''Noto Sans'', js ''NotoSans-Regular.ttf'')]) \<and>
   (\<exists>p \<in> set [(Str (js ''Total''), noOptions), (Str [0x416], noOptions), (Str [0x416], noOptions)].
      usesFallback sampleEnvironment sampleOptions (fst p)) \<and>
   (\<exists>st'. forEach (\<lambda>p. setText sampleEnvironment sampleOptions (fst p) (snd p))
            [(Str (js ''Total''), noOptions), (Str [0x416], noOptions), (Str [0x416], noOptions)]
            sampleStorage = Inr st' \<and> loaded st' \<and>
          registrations (calls (document st')) = [(js ''Noto Sans'', js ''NotoSans-Regular.ttf'')])"
proof -
  have a: "loaded (sampleStorage\<lparr>loaded := True\<rparr>)" by simp
  have b: "\<not> loaded sampleStorage" by (simp add: sampleStorage_def newStorage_def)
  have u: "usesFallback sampleEnvironment sampleOptions (Str [0x416])"
    by (simp add: usesFallback_def sampleOptions_def defaultOptions_def)
  have t: "\<not> usesFallback sampleEnvironment sampleOptions (Str (js ''Total''))"
    by (simp add: usesFallback_def sampleOptions_def defaultOptions_def js_def)
  have n: "fallback_name (fallback (fonts (style sampleOptions))) = js ''Noto Sans''"
    "fallback_path (fallback (fonts (style sampleOptions))) = js ''NotoSans-Regular.ttf''"
    by (simp_all add: sampleOptions_def defaultOptions_def)
  have r: "registrations (calls (document sampleStorage)) = []"
    by (simp add: sampleStorage_def newStorage_def)
  have c: "registerFallback sampleOptions sampleStorage \<noteq> sampleStorage"
    using b by (metis registerFallback_simps(5))
  have w: "weightName sampleOptions (Some (js ''normal'')) = js ''Helvetica''"
    by (simp add: weightName_def sampleOptions_def defaultOptions_def)
  have e: "\<exists>p \<in> set [(Str (js ''Total''), noOptions), (Str [0x416], noOptions), (Str [0x416], noOptions)].
      usesFallback sampleEnvironment sampleOptions (fst p)"
    using u by simp
  obtain n1 s1 where g1: "getFontOrFallback sampleEnvironment sampleOptions (Some (js ''normal'')) (Str [0x416])
        (sampleStorage\<lparr>loaded := True\<rparr>) = Inr (n1, s1)"
    and g1n: "usesFallback sampleEnvironment sampleOptions (Str [0x416]) \<longrightarrow>
        n1 = fallback_name (fallback (fonts (style sampleOptions))) \<and> loaded s1"
    and g1s: "loaded (sampleStorage\<lparr>loaded := True\<rparr>) \<longrightarrow> s1 = sampleStorage\<lparr>loaded := True\<rparr>"
    using fallback_registered_once [of sampleEnvironment sampleOptions "Some (js ''normal'')" "Str [0x416]"
        "sampleStorage\<lparr>loaded := True\<rparr>" noOptions "[]"]
    by blast
  have 1: "getFontOrFallback sampleEnvironment sampleOptions (Some (js ''normal'')) (Str [0x416])
     (sampleStorage\<lparr>loaded := True\<rparr>) = Inr (js ''Noto Sans'', sampleStorage\<lparr>loaded := True\<rparr>)"
    using g1 g1n g1s u a n by simp
  obtain n2 s2 where g2: "getFontOrFallback sampleEnvironment sampleOptions (Some (js ''normal''))
        (Str (js ''Total'')) sampleStorage = Inr (n2, s2)"
    and g2s: "\<not> usesFallback sampleEnvironment sampleOptions (Str (js ''Total'')) \<longrightarrow> s2 = sampleStorage"
    using fallback_registered_once [of sampleEnvironment sampleOptions "Some (js ''normal'')" "Str (js ''Total'')"
        sampleStorage noOptions "[]"]
    by blast
  have "n2 = js ''Helvetica''"
    using g2 t w unfolding getFontOrFallback_eq by simp
  then have 2: "getFontOrFallback sampleEnvironment sampleOptions (Some (js ''normal'')) (Str (js ''Total''))
     sampleStorage = Inr (js ''Helvetica'', sampleStorage)"
    using g2 g2s t by simp
  obtain n3 s3 s4 where g3: "getFontOrFallback sampleEnvironment sampleOptions (Some (js ''normal'')) (Str [0x416])
        sampleStorage = Inr (n3, s3)"
    and g3n: "usesFallback sampleEnvironment sampleOptions (Str [0x416]) \<longrightarrow>
        n3 = fallback_name (fallback (fonts (style sampleOptions))) \<and> loaded s3"
    and g3r: "usesFallback sampleEnvironment sampleOptions (Str [0x416]) \<and> \<not> loaded sampleStorage \<longrightarrow>
        registrations (calls (document s3)) = registrations (calls (document sampleStorage)) @
          [(fallback_name (fallback (fonts (style sampleOptions))), fallback_path (fallback (fonts (style sampleOptions))))]"
    and g4: "forEach (\<lambda>p. setText sampleEnvironment sampleOptions (fst p) (snd p))
            [(Str (js ''Total''), noOptions), (Str [0x416], noOptions), (Str [0x416], noOptions)]
            sampleStorage = Inr s4"
    and g4l: "loaded s4 \<longleftrightarrow> loaded sampleStorage \<or>
        (\<exists>p \<in> set [(Str (js ''Total''), noOptions), (Str [0x416], noOptions), (Str [0x416], noOptions)].
           usesFallback sampleEnvironment sampleOptions (fst p))"
    and g4r: "registrations (calls (document s4)) = registrations (calls (document sampleStorage)) @
        (if (\<exists>p \<in> set [(Str (js ''Total''), noOptions), (Str [0x416], noOptions), (Str [0x416], noOptions)].
               usesFallback sampleEnvironment sampleOptions (fst p)) \<and> \<not> loaded sampleStorage
         then [(fallback_name (fallback (fonts (style sampleOptions))), fallback_path (fallback (fonts (style sampleOptions))))]
         else [])"
    using fallback_registered_once [of sampleEnvironment sampleOptions "Some (js ''normal'')" "Str [0x416]"
        sampleStorage noOptions
        "[(Str (js ''Total''), noOptions), (Str [0x416], noOptions), (Str [0x416], noOptions)]"]
    by blast
  have "loaded s3" "n3 = js ''Noto Sans''"
    "registrations (calls (document s3)) = [(js ''Noto Sans'', js ''NotoSans-Regular.ttf'')]"
    using g3n g3r u b n r by simp_all
  moreover from this b have "s3 \<noteq> sampleStorage" by auto
  ultimately have 3: "\<exists>st'. getFontOrFallback sampleEnvironment sampleOptions (Some (js ''normal'')) (Str [0x416])
            sampleStorage = Inr (js ''Noto Sans'', st') \<and> loaded st' \<and> st' \<noteq> sampleStorage \<and>
          registrations (calls (document st')) = [(js ''Noto Sans'', js ''NotoSans-Regular.ttf'')]"
    using g3 by simp
  have "loaded s4" using g4l e by blast
  moreover have "registrations (calls (document s4)) = [(js ''Noto Sans'', js ''NotoSans-Regular.ttf'')]"
    unfolding g4r n r using e b by (simp only: simp_thms if_True append_Nil)
  ultimately have 4: "\<exists>st'. forEach (\<lambda>p. setText sampleEnvironment sampleOptions (fst p) (snd p))
            [(Str (js ''Total''), noOptions), (Str [0x416], noOptions), (Str [0x416], noOptions)]
            sampleStorage = Inr st' \<and> loaded st' \<and>
          registrations (calls (document st')) = [(js ''Noto Sans'', js ''NotoSans-Regular.ttf'')]"
    using g4 by blast
  show ?thesis
    apply (intro conjI)
    apply (fact u t a b r 1 2 3 e 4)+
    done
qed

subsection \<open>Start of the table\<close>

text \<open>
  C8. \<open>generateDetails\<close> draws the labels and the values of its section one below the other,
  from the header's height plus 18, and records as the section's height the cursor's \<open>y\<close> at
  its end: the \<open>y\<close> the document reported after the last of these texts (the header's height
  plus 18 if the section has no line). The seller's details leave the customer's height alone.
  \<open>generateParts\<close> starts by setting the cursor's \<open>y\<close> to the larger of the two heights, and its
  first text, a line feed, is drawn there.
\<close>

theorem table_start:
  "\<exists>st2 st3 st4 c y rest.
     generateDetails env opts Customer st1 = Inr st2 \<and>
     stacked (Fin (marginLeft (document_style (style opts)))) (Fin 250) (height (header_style (style opts)) + 18)
       (detailItems env opts (customer (data_invoice opts))) (newTexts st1 st2) \<and>
     cursor_y st2 = last ((height (header_style (style opts)) + 18) # map snd (newTexts st1 st2)) \<and>
     customer_height st2 = cursor_y st2 \<and>
     generateDetails env opts Seller st2 = Inr st3 \<and>
     stacked (Fin (textPosition (header_style (style opts)))) (Fin 250) (height (header_style (style opts)) + 18)
       (detailItems env opts (seller (data_invoice opts))) (newTexts st2 st3) \<and>
     cursor_y st3 = last ((height (header_style (style opts)) + 18) # map snd (newTexts st2 st3)) \<and>
     seller_height st3 = cursor_y st3 \<and>
     customer_height st3 = cursor_y st2 \<and>
     cursor_y (partsStart st3) = max (customer_height st3) (seller_height st3) \<and>
     generateParts env opts st3 = Inr st4 \<and>
     textCalls (calls (document st4)) = textCalls (calls (document st3)) @ (c, y) # rest \<and>
     tc_text c = valueOrTransliterate env opts (Str (js [CHR 0x0A])) \<and>
     tc_y c = max (cursor_y st2) (cursor_y st3)"
proof -
  obtain st2 where st2: "generateDetails env opts Customer st1 = Inr st2"
    "customer_height st2 = cursor_y st2"
    by (rule generateDetails_cases [of env opts Customer st1]) blast
  obtain s2 where s2: "generateDetails env opts Customer st1 = Inr s2"
    "stacked (Fin (if Customer = Customer then marginLeft (document_style (style opts))
                   else textPosition (header_style (style opts)))) (Fin 250)
       (height (header_style (style opts)) + 18)
       (detailItems env opts (case Customer of Customer \<Rightarrow> customer (data_invoice opts)
                                          | Seller \<Rightarrow> seller (data_invoice opts)))
       (newTexts st1 s2)"
    "cursor_y s2 = last ((height (header_style (style opts)) + 18) # map snd (newTexts st1 s2))"
    by (rule generateDetails_drawn [of env opts Customer st1])
  have e2: "s2 = st2" using st2(1) s2(1) by simp
  obtain st3 where st3: "generateDetails env opts Seller st2 = Inr st3"
    "seller_height st3 = cursor_y st3" "customer_height st3 = customer_height st2"
    by (rule generateDetails_cases [of env opts Seller st2]) blast
  obtain s3 where s3: "generateDetails env opts Seller st2 = Inr s3"
    "stacked (Fin (if Seller = Customer then marginLeft (document_style (style opts))
                   else textPosition (header_style (style opts)))) (Fin 250)
       (height (header_style (style opts)) + 18)
       (detailItems env opts (case Seller of Customer \<Rightarrow> customer (data_invoice opts)
                                          | Seller \<Rightarrow> seller (data_invoice opts)))
       (newTexts st2 s3)"
    "cursor_y s3 = last ((height (header_style (style opts)) + 18) # map snd (newTexts st2 s3))"
    by (rule generateDetails_drawn [of env opts Seller st2])
  have e3: "s3 = st3" using st3(1) s3(1) by simp
  obtain st4 c y rest where st4: "generateParts env opts st3 = Inr st4"
    "textCalls (calls (document st4)) = textCalls (calls (document st3)) @ (c, y) # rest"
    "tc_y c = max (customer_height st3) (seller_height st3)"
    "tc_text c = valueOrTransliterate env opts (Str (js [CHR 0x0A]))"
    by (rule generateParts_cases [of env opts st3]) blast
  have p: "cursor_y (partsStart st3) = max (customer_height st3) (seller_height st3)"
    by (simp add: partsStart_def)
  have d2: "stacked (Fin (marginLeft (document_style (style opts)))) (Fin 250) (height (header_style (style opts)) + 18)
       (detailItems env opts (customer (data_invoice opts))) (newTexts st1 st2)"
    using s2(2) unfolding e2 by simp
  have d3: "stacked (Fin (textPosition (header_style (style opts)))) (Fin 250) (height (header_style (style opts)) + 18)
       (detailItems env opts (seller (data_invoice opts))) (newTexts st2 st3)"
    using s3(2) unfolding e3 by simp
  have h: "customer_height st3 = cursor_y st2" "tc_y c = max (cursor_y st2) (cursor_y st3)"
    using st2(2) st3(2,3) st4(3) by simp_all
  show ?thesis
    apply (rule exI [of _ st2])
    apply (rule exI [of _ st3])
    apply (rule exI [of _ st4])
    apply (rule exI [of _ c])
    apply (rule exI [of _ y])
    apply (rule exI [of _ rest])
    apply (intro conjI)
    apply (fact st2 d2 s2(3) [unfolded e2] st3 d3 s3(3) [unfolded e3] h p st4)+
    done
qed

theorem table_start_witness:
  "\<exists>st2 st3 st4 c y rest.
     generateDetails sampleEnvironment sampleInvoice Customer sampleStorage = Inr st2 \<and>
     map (\<lambda>p. (tc_text (fst p), tc_y (fst p), snd p)) (newTexts sampleStorage st2) =
       [(Str (js ''Bill To:''), 176, 188), (Str (js ''Ada Lovelace''), 192, 204),
        (Str (js ''12 St James Square''), 208, 220), (Str (js ''London''), 224, 236)] \<and>
     customer_height st2 = 236 \<and>
     generateDetails sampleEnvironment sampleInvoice Seller st2 = Inr st3 \<and>
     map (\<lambda>p. (tc_text (fst p), tc_y (fst p), snd p)) (newTexts st2 st3) =
       [(Str (js ''Bill From:''), 176, 188), (Str (js ''Acme''), 192, 204)] \<and>
     seller_height st3 = 204 \<and>
     customer_height st3 = 236 \<and>
     generateParts sampleEnvironment sampleInvoice st3 = Inr st4 \<and>
     textCalls (calls (document st4)) = textCalls (calls (document st3)) @ (c, y) # rest \<and>
     tc_y c = 236"
proof -
  obtain st2 st3 st4 c y rest where
    g2: "generateDetails sampleEnvironment sampleInvoice Customer sampleStorage = Inr st2"
    and d2: "stacked (Fin (marginLeft (document_style (style sampleInvoice)))) (Fin 250)
       (height (header_style (style sampleInvoice)) + 18)
       (detailItems sampleEnvironment sampleInvoice (customer (data_invoice sampleInvoice)))
       (newTexts sampleStorage st2)"
    and y2: "cursor_y st2 = last ((height (header_style (style sampleInvoice)) + 18) #
        map snd (newTexts sampleStorage st2))"
    and h2: "customer_height st2 = cursor_y st2"
    and g3: "generateDetails sampleEnvironment sampleInvoice Seller st2 = Inr st3"
    and d3: "stacked (Fin (textPosition (header_style (style sampleInvoice)))) (Fin 250)
       (height (header_style (style sampleInvoice)) + 18)
       (detailItems sampleEnvironment sampleInvoice (seller (data_invoice sampleInvoice)))
       (newTexts st2 st3)"
    and y3: "cursor_y st3 = last ((height (header_style (style sampleInvoice)) + 18) # map snd (newTexts st2 st3))"
    and h3: "seller_height st3 = cursor_y st3" "customer_height st3 = cursor_y st2"
    and g4: "generateParts sampleEnvironment sampleInvoice st3 = Inr st4"
      "textCalls (calls (document st4)) = textCalls (calls (document st3)) @ (c, y) # rest"
      "tc_y c = max (cursor_y st2) (cursor_y st3)"
    using table_start [of sampleEnvironment sampleInvoice sampleStorage] by blast
  have r2: "\<forall>p \<in> set (newTexts sampleStorage st2). \<exists>d. snd p = textY sampleEnvironment d (fst p)"
    by (rule generateDetails_cases [of sampleEnvironment sampleInvoice Customer sampleStorage])
      (use g2 in \<open>auto dest: steps_reported\<close>)
  have r3: "\<forall>p \<in> set (newTexts st2 st3). \<exists>d. snd p = textY sampleEnvironment d (fst p)"
    by (rule generateDetails_cases [of sampleEnvironment sampleInvoice Seller st2])
      (use g3 in \<open>auto dest: steps_reported\<close>)
  note d2' = d2 [unfolded sampleInvoice_items sampleInvoice_layout]
  note d3' = d3 [unfolded sampleInvoice_items sampleInvoice_layout]
  obtain q1 where q1: "newTexts sampleStorage st2 =
      (\<lparr>tc_text = Str (js ''Bill To:''), tc_x = Fin 30, tc_y = 150 + 18 + 8, tc_align = js ''left'',
        tc_width = Some (Fin 250)\<rparr>, 150 + 18 + 8 + 12) # q1"
    and s1: "stacked (Fin 30) (Fin 250) (150 + 18 + 8 + 12)
      [(Str (js ''Ada Lovelace''), 4), (Str (js ''12 St James Square''), 4), (Str (js ''London''), 4)] q1"
    and t1: "\<forall>p \<in> set q1. \<exists>d. snd p = textY sampleEnvironment d (fst p)"
    by (rule sample_stacked [OF d2' r2]) (simp_all add: js_def)
  obtain q2 where q2: "q1 =
      (\<lparr>tc_text = Str (js ''Ada Lovelace''), tc_x = Fin 30, tc_y = 150 + 18 + 8 + 12 + 4, tc_align = js ''left'',
        tc_width = Some (Fin 250)\<rparr>, 150 + 18 + 8 + 12 + 4 + 12) # q2"
    and s2: "stacked (Fin 30) (Fin 250) (150 + 18 + 8 + 12 + 4 + 12)
      [(Str (js ''12 St James Square''), 4), (Str (js ''London''), 4)] q2"
    and t2: "\<forall>p \<in> set q2. \<exists>d. snd p = textY sampleEnvironment d (fst p)"
    by (rule sample_stacked [OF s1 t1]) (simp_all add: js_def)
  obtain q3 where q3: "q2 =
      (\<lparr>tc_text = Str (js ''12 St James Square''), tc_x = Fin 30, tc_y = 150 + 18 + 8 + 12 + 4 + 12 + 4,
        tc_align = js ''left'', tc_width = Some (Fin 250)\<rparr>, 150 + 18 + 8 + 12 + 4 + 12 + 4 + 12) # q3"
    and s3: "stacked (Fin 30) (Fin 250) (150 + 18 + 8 + 12 + 4 + 12 + 4 + 12) [(Str (js ''London''), 4)] q3"
    and t3: "\<forall>p \<in> set q3. \<exists>d. snd p = textY sampleEnvironment d (fst p)"
    by (rule sample_stacked [OF s2 t2]) (simp_all add: js_def)
  obtain q4 where q4: "q3 =
      (\<lparr>tc_text = Str (js ''London''), tc_x = Fin 30, tc_y = 150 + 18 + 8 + 12 + 4 + 12 + 4 + 12 + 4,
        tc_align = js ''left'', tc_width = Some (Fin 250)\<rparr>, 150 + 18 + 8 + 12 + 4 + 12 + 4 + 12 + 4 + 12) # q4"
    and s4: "stacked (Fin 30) (Fin 250) (150 + 18 + 8 + 12 + 4 + 12 + 4 + 12 + 4 + 12) [] q4"
    by (rule sample_stacked [OF s3 t3]) (simp_all add: js_def)
  have q4': "q4 = []" using s4 by simp
  have m2: "map (\<lambda>p. (tc_text (fst p), tc_y (fst p), snd p)) (newTexts sampleStorage st2) =
       [(Str (js ''Bill To:''), 176, 188), (Str (js ''Ada Lovelace''), 192, 204),
        (Str (js ''12 St James Square''), 208, 220), (Str (js ''London''), 224, 236)]"
    unfolding q1 q2 q3 q4 q4' by simp
  have c2: "cursor_y st2 = 236"
    unfolding y2 q1 q2 q3 q4 q4' by simp
  obtain u1 where u1: "newTexts st2 st3 =
      (\<lparr>tc_text = Str (js ''Bill From:''), tc_x = Fin 330, tc_y = 150 + 18 + 8, tc_align = js ''left'',
        tc_width = Some (Fin 250)\<rparr>, 150 + 18 + 8 + 12) # u1"
    and v1: "stacked (Fin 330) (Fin 250) (150 + 18 + 8 + 12) [(Str (js ''Acme''), 4)] u1"
    and w1: "\<forall>p \<in> set u1. \<exists>d. snd p = textY sampleEnvironment d (fst p)"
    by (rule sample_stacked [OF d3' r3]) (simp_all add: js_def)
  obtain u2 where u2: "u1 =
      (\<lparr>tc_text = Str (js ''Acme''), tc_x = Fin 330, tc_y = 150 + 18 + 8 + 12 + 4, tc_align = js ''left'',
        tc_width = Some (Fin 250)\<rparr>, 150 + 18 + 8 + 12 + 4 + 12) # u2"
    and v2: "stacked (Fin 330) (Fin 250) (150 + 18 + 8 + 12 + 4 + 12) [] u2"
    by (rule sample_stacked [OF v1 w1]) (simp_all add: js_def)
  have u2': "u2 = []" using v2 by simp
  have m3: "map (\<lambda>p. (tc_text (fst p), tc_y (fst p), snd p)) (newTexts st2 st3) =
       [(Str (js ''Bill From:''), 176, 188), (Str (js ''Acme''), 192, 204)]"
    unfolding u1 u2 u2' by simp
  have c3: "cursor_y st3 = 204"
    unfolding y3 u1 u2 u2' by simp
  have k: "customer_height st2 = 236" "seller_height st3 = 204" "customer_height st3 = 236" "tc_y c = 236"
    using h2 h3 g4(3) c2 c3 by simp_all
  show ?thesis
    apply (rule exI [of _ st2])
    apply (rule exI [of _ st3])
    apply (rule exI [of _ st4])
    apply (rule exI [of _ c])
    apply (rule exI [of _ y])
    apply (rule exI [of _ rest])
    apply (intro conjI)
    apply (fact g2 m2 k g3 m3 g4)+
    done
qed

subsection \<open>Start of a table row\<close>

text \<open>
  C9. \<open>generateTableRow\<close> starts by setting the cursor's \<open>y\<close> to the document's \<open>y\<close> plus 17:
  the \<open>y\<close> the cursor had before the call has no effect, and the first cell is drawn at the
  document's \<open>y\<close> plus 17. After a row the document's \<open>y\<close> is the one reported after the last
  cell, so the next row starts 17 below the last cell of this one.
\<close>

theorem generateTableRow_start:
  "generateTableRow env opts type columns (st\<lparr>cursor_y := v\<rparr>) = generateTableRow env opts type columns st \<and>
   tableRowCells env opts type [] st = Inr (st\<lparr>cursor_y := doc_y (document st) + 17\<rparr>) \<and>
   (columns \<noteq> [] \<longrightarrow>
      (\<exists>st'. generateTableRow env opts type columns st = Inr st' \<and>
         tc_y (fst (hd (newTexts st st'))) = doc_y (document st) + 17 \<and>
         doc_y (document st') = snd (last (newTexts st st')) \<and>
         (\<forall>next. next \<noteq> [] \<longrightarrow>
            (\<exists>st''. generateTableRow env opts Row next st' = Inr st'' \<and>
               tc_y (fst (hd (newTexts st' st''))) = snd (last (newTexts st st')) + 17))))"
proof -
  have "tableRowCells env opts type columns (st\<lparr>cursor_y := v\<rparr>) = tableRowCells env opts type columns st"
    by (simp add: tableRowCells_alt rowStart_def)
  then have 1: "generateTableRow env opts type columns (st\<lparr>cursor_y := v\<rparr>) =
      generateTableRow env opts type columns st"
    by (simp add: generateTableRow_def)
  have 2: "tableRowCells env opts type [] st = Inr (st\<lparr>cursor_y := doc_y (document st) + 17\<rparr>)"
    by (simp add: tableRowCells_alt rowStart_def setCursorY_def)
  have 3: "\<exists>st'. generateTableRow env opts t cols s = Inr st' \<and>
         tc_y (fst (hd (newTexts s st'))) = doc_y (document s) + 17 \<and>
         doc_y (document st') = snd (last (newTexts s st'))" if "cols \<noteq> []" for t cols s
  proof -
    obtain st' cs where row: "generateTableRow env opts t cols s = Inr st'"
      and cs: "newTexts s st' = cs" "length cs = length cols"
      and y: "doc_y (document st') = last (doc_y (document s) # map snd cs)"
      and first: "cols \<noteq> [] \<longrightarrow> tc_y (fst (hd cs)) = doc_y (document s) + 17"
      by (rule generateTableRow_cases [of env opts t cols s]) blast
    have "cs \<noteq> []" using cs(2) that by auto
    then show ?thesis
      using row cs y first that by (simp add: last_map)
  qed
  have 4: "columns \<noteq> [] \<longrightarrow>
      (\<exists>st'. generateTableRow env opts type columns st = Inr st' \<and>
         tc_y (fst (hd (newTexts st st'))) = doc_y (document st) + 17 \<and>
         doc_y (document st') = snd (last (newTexts st st')) \<and>
         (\<forall>next. next \<noteq> [] \<longrightarrow>
            (\<exists>st''. generateTableRow env opts Row next st' = Inr st'' \<and>
               tc_y (fst (hd (newTexts st' st''))) = snd (last (newTexts st st')) + 17)))"
  proof
    assume "columns \<noteq> []"
    then obtain st' where st': "generateTableRow env opts type columns st = Inr st'"
      "tc_y (fst (hd (newTexts st st'))) = doc_y (document st) + 17"
      "doc_y (document st') = snd (last (newTexts st st'))"
      using 3 by blast
    have "\<exists>st''. generateTableRow env opts Row next st' = Inr st'' \<and>
               tc_y (fst (hd (newTexts st' st''))) = snd (last (newTexts st st')) + 17"
      if "next \<noteq> []" for "next"
      using 3 [OF that, of Row st'] st'(3) by auto
    with st' show "\<exists>st'. generateTableRow env opts type columns st = Inr st' \<and>
         tc_y (fst (hd (newTexts st st'))) = doc_y (document st) + 17 \<and>
         doc_y (document st') = snd (last (newTexts st st')) \<and>
         (\<forall>next. next \<noteq> [] \<longrightarrow>
            (\<exists>st''. generateTableRow env opts Row next st' = Inr st'' \<and>
               tc_y (fst (hd (newTexts st' st''))) = snd (last (newTexts st st')) + 17))"
      by blast
  qed
  from 1 2 4 show ?thesis by simp
qed

theorem generateTableRow_start_witness:
  "sampleRow \<noteq> [] \<and> sampleTwoColumns \<noteq> [] \<and>
   generateTableRow sampleEnvironment sampleOptions Row sampleRow (sampleStorage\<lparr>cursor_y := 500\<rparr>) =
     generateTableRow sampleEnvironment sampleOptions Row sampleRow sampleStorage \<and>
   (\<exists>st' st''. generateTableRow sampleEnvironment sampleOptions Row sampleRow sampleStorage = Inr st' \<and>
      tc_y (fst (hd (newTexts sampleStorage st'))) = 89 \<and>
      map snd (newTexts sampleStorage st') = [113, 101, 101] \<and>
      doc_y (document st') = 101 \<and>
      generateTableRow sampleEnvironment sampleOptions Row sampleTwoColumns st' = Inr st'' \<and>
      tc_y (fst (hd (newTexts st' st''))) = 118)"
proof -
  have a: "sampleRow \<noteq> []" by (simp add: sampleRow_def)
  have b: "sampleTwoColumns \<noteq> []" by (simp add: sampleTwoColumns_def)
  have y: "doc_y (document sampleStorage) = 72"
    by (simp add: sampleStorage_def newStorage_def sampleEnvironment_def)
  obtain st' st'' where row: "generateTableRow sampleEnvironment sampleOptions Row sampleRow sampleStorage = Inr st'"
    and first: "tc_y (fst (hd (newTexts sampleStorage st'))) = 89"
    and last: "doc_y (document st') = snd (last (newTexts sampleStorage st'))"
    and row2: "generateTableRow sampleEnvironment sampleOptions Row sampleTwoColumns st' = Inr st''"
    and first2: "tc_y (fst (hd (newTexts st' st''))) = snd (last (newTexts sampleStorage st')) + 17"
    using a b generateTableRow_start [where env = sampleEnvironment and opts = sampleOptions and type = Row
        and columns = sampleRow and st = sampleStorage and v = 500]
    unfolding y by auto
  have "map (\<lambda>p. (tc_y (fst p), snd p)) (newTexts sampleStorage st') = [(89, 113), (89, 101), (89, 101)]"
    using sampleRow_drawn [OF row y] .
  then have d: "map snd (newTexts sampleStorage st') = [113, 101, 101]"
    by (auto simp add: map_eq_Cons_conv)
  then have "snd (last (newTexts sampleStorage st')) = 101"
    by (auto simp add: map_eq_Cons_conv)
  then show ?thesis
    using a b row first last row2 first2 d
      generateTableRow_start [where env = sampleEnvironment and opts = sampleOptions and type = Row
        and columns = sampleRow and st = sampleStorage and v = 500]
    by auto
qed

subsection \<open>Unknown weights\<close>

text \<open>
  C10. A weight that is neither "normal" nor "bold", an undefined one included, is replaced
  by "normal" before the font table is read: the call returns what it returns for "normal",
  it does not raise, and the name is the normal font's or the fallback's. A text drawn with
  such a weight, or with none, is drawn as with "normal".
\<close>

theorem getFontOrFallback_unknown_weight:
  assumes "w \<noteq> Some (js ''normal'')" and "w \<noteq> Some (js ''bold'')"
  shows "getFontOrFallback env opts w v st = getFontOrFallback env opts (Some (js ''normal'')) v st \<and>
         (\<exists>n st'. getFontOrFallback env opts w v st = Inr (n, st') \<and>
            (n = normal_name (normal (fonts (style opts))) \<or>
             n = fallback_name (fallback (fonts (style opts))))) \<and>
         setText env opts v (options\<lparr>fontWeight := w\<rparr>) st =
           setText env opts v (options\<lparr>fontWeight := Some (js ''normal'')\<rparr>) st"
proof -
  have eq: "getFontOrFallback env opts (case w of None \<Rightarrow> Some (js ''normal'') | Some x \<Rightarrow> Some x) v st
      = getFontOrFallback env opts (Some (js ''normal'')) v st" for st
    using assms by (simp add: getFontOrFallback_eq weightName_def split: option.splits)
  have "getFontOrFallback env opts w v st = getFontOrFallback env opts (Some (js ''normal'')) v st"
    using assms by (simp add: getFontOrFallback_eq weightName_def)
  moreover have "\<exists>n st'. getFontOrFallback env opts w v st = Inr (n, st') \<and>
            (n = normal_name (normal (fonts (style opts))) \<or>
             n = fallback_name (fallback (fonts (style opts))))"
    using assms by (simp add: getFontOrFallback_eq weightName_def)
  moreover have "setText env opts v (options\<lparr>fontWeight := w\<rparr>) st =
           setText env opts v (options\<lparr>fontWeight := Some (js ''normal'')\<rparr>) st"
    using assms
    by (simp add: setText_def getFontOrFallback_eq weightName_def orDefault_def split: option.splits)
  ultimately show ?thesis by simp
qed

theorem getFontOrFallback_unknown_weight_witness:
  "None \<noteq> Some (js ''normal'') \<and> None \<noteq> Some (js ''bold'') \<and>
   Some (js ''heavy'') \<noteq> Some (js ''normal'') \<and> Some (js ''heavy'') \<noteq> Some (js ''bold'') \<and>
   getFontOrFallback sampleEnvironment sampleOptions None (Str (js ''Terms'')) sampleStorage =
     Inr (js ''Helvetica'', sampleStorage) \<and>
   getFontOrFallback sampleEnvironment sampleOptions (Some (js ''heavy'')) (Str (js ''Terms'')) sampleStorage =
     Inr (js ''Helvetica'', sampleStorage)"
  using getFontOrFallback_unknown_weight [of None sampleEnvironment sampleOptions "Str (js ''Terms'')" sampleStorage]
    getFontOrFallback_unknown_weight [of "Some (js ''heavy'')" sampleEnvironment sampleOptions "Str (js ''Terms'')" sampleStorage]
  by (simp add: getFontOrFallback_eq usesFallback_def weightName_def sampleOptions_def defaultOptions_def js_def)

end
